theory Spec2Isabelle
  imports Complex_Main "HOL-Library.Multiset"
begin

section \<open>JavaScript numbers and values\<close>

text \<open>
  A JavaScript Number is NaN, one of the two infinities, or a finite double. A finite
  double is the real number it denotes, and the two zeros are one value. Every
  arithmetic operation on finite values returns the exact result rounded to the nearest
  double, a tie going to the even significand, as IEEE 754 prescribes for binary64:
  53 bits of significand, the least normal exponent \<open>-1022\<close>, and below it the
  subnormal numbers, multiples of \<open>2 powr -1074\<close>. The exponent has no upper bound
  here: a finite operation does not overflow to an infinity. NaN and the infinities are
  kept, because the code can divide zero by zero (\<open>0 / 0\<close> is NaN) and can take
  \<open>Math.max\<close> of no arguments (\<open>-Infinity\<close>), and because every comparison with
  NaN is false.
\<close>

definition ulp_exponent :: "real \<Rightarrow> int" where
  \<comment> \<open>the exponent of the unit in the last place of the doubles of the magnitude of \<open>x\<close>\<close>
  "ulp_exponent x = max \<lfloor>log 2 \<bar>x\<bar>\<rfloor> (- 1022) - 52"

definition ulp :: "real \<Rightarrow> real" where
  "ulp x = 2 powr of_int (ulp_exponent x)"

definition round_half_even :: "real \<Rightarrow> int" where
  \<comment> \<open>the nearest integer, a tie going to the even one\<close>
  "round_half_even y =
     (let f = \<lfloor>y\<rfloor>; d = y - of_int f
      in if d < 1/2 then f else if 1/2 < d then f + 1 else if even f then f else f + 1)"

definition fl :: "real \<Rightarrow> real" where
  \<comment> \<open>the double nearest to \<open>x\<close>\<close>
  "fl x = (if x = 0 then 0 else of_int (round_half_even (x / ulp x)) * ulp x)"

definition isDouble :: "real \<Rightarrow> bool" where
  \<comment> \<open>a real that is a double: rounding leaves it as it is\<close>
  "isDouble x = (fl x = x)"

definition isInteger :: "real \<Rightarrow> bool" where
  \<comment> \<open>a real that is a whole number\<close>
  "isInteger x = (x = of_int \<lfloor>x\<rfloor>)"

definition onGrid :: "real \<Rightarrow> bool" where
  \<comment> \<open>a multiple of the least positive double; every double is one\<close>
  "onGrid x = (x = of_int \<lfloor>x / 2 powr (- 1074)\<rfloor> * 2 powr (- 1074))"

datatype jsnum = NaN | NegInf | Finite real | PosInf

definition lit :: "real \<Rightarrow> jsnum" where
  \<comment> \<open>a decimal literal, or a number a caller wrote down: the double nearest to it\<close>
  "lit x = Finite (fl x)"

fun jneg :: "jsnum \<Rightarrow> jsnum" where
  "jneg NaN = NaN"
| "jneg NegInf = PosInf"
| "jneg (Finite a) = Finite (- a)"
| "jneg PosInf = NegInf"

fun jadd :: "jsnum \<Rightarrow> jsnum \<Rightarrow> jsnum" where
  "jadd (Finite a) (Finite b) = Finite (fl (a + b))"
| "jadd NaN _ = NaN"
| "jadd _ NaN = NaN"
| "jadd PosInf NegInf = NaN"
| "jadd NegInf PosInf = NaN"
| "jadd PosInf _ = PosInf"
| "jadd _ PosInf = PosInf"
| "jadd NegInf _ = NegInf"
| "jadd _ NegInf = NegInf"

definition jsub :: "jsnum \<Rightarrow> jsnum \<Rightarrow> jsnum" where
  "jsub x y = jadd x (jneg y)"

definition inf_of_sign :: "real \<Rightarrow> jsnum" where
  \<comment> \<open>the infinity with the sign of \<open>s\<close>; NaN when \<open>s\<close> is zero\<close>
  "inf_of_sign s = (if s = 0 then NaN else if 0 < s then PosInf else NegInf)"

fun sign_of :: "jsnum \<Rightarrow> real" where
  "sign_of NaN = 0"
| "sign_of NegInf = - 1"
| "sign_of (Finite a) = sgn a"
| "sign_of PosInf = 1"

fun jmul :: "jsnum \<Rightarrow> jsnum \<Rightarrow> jsnum" where
  "jmul (Finite a) (Finite b) = Finite (fl (a * b))"
| "jmul NaN _ = NaN"
| "jmul _ NaN = NaN"
| "jmul x y = inf_of_sign (sign_of x * sign_of y)"

fun jdiv :: "jsnum \<Rightarrow> jsnum \<Rightarrow> jsnum" where
  "jdiv NaN _ = NaN"
| "jdiv _ NaN = NaN"
| "jdiv (Finite a) (Finite b) = (if b = 0 then inf_of_sign a else Finite (fl (a / b)))"
| "jdiv (Finite a) _ = Finite 0"
| "jdiv x (Finite b) = (if b = 0 then x else inf_of_sign (sign_of x * b))"
| "jdiv _ _ = NaN"

fun jabs :: "jsnum \<Rightarrow> jsnum" where
  "jabs NaN = NaN"
| "jabs NegInf = PosInf"
| "jabs (Finite a) = Finite \<bar>a\<bar>"
| "jabs PosInf = PosInf"

fun jexp :: "jsnum \<Rightarrow> jsnum" where
  \<comment> \<open>\<open>Math.exp\<close>, taken as correctly rounded; nothing below depends on its digits\<close>
  "jexp NaN = NaN"
| "jexp NegInf = Finite 0"
| "jexp (Finite a) = Finite (fl (exp a))"
| "jexp PosInf = PosInf"

fun jround :: "jsnum \<Rightarrow> jsnum" where
  \<comment> \<open>\<open>Math.round\<close>: the nearest integer, a half rounded up; \<open>round a\<close> is \<open>\<lfloor>a + 1/2\<rfloor>\<close>\<close>
  "jround (Finite a) = Finite (of_int (round a))"
| "jround x = x"

fun jlt :: "jsnum \<Rightarrow> jsnum \<Rightarrow> bool" where
  "jlt (Finite a) (Finite b) = (a < b)"
| "jlt NaN _ = False"
| "jlt _ NaN = False"
| "jlt _ NegInf = False"
| "jlt PosInf _ = False"
| "jlt NegInf _ = True"
| "jlt _ PosInf = True"

definition jgt :: "jsnum \<Rightarrow> jsnum \<Rightarrow> bool" where
  "jgt x y = jlt y x"

definition jeq :: "jsnum \<Rightarrow> jsnum \<Rightarrow> bool" where
  \<comment> \<open>\<open>===\<close> on numbers: NaN equals nothing, itself included\<close>
  "jeq x y = (x \<noteq> NaN \<and> x = y)"

definition jmax :: "jsnum \<Rightarrow> jsnum \<Rightarrow> jsnum" where
  "jmax x y = (if x = NaN \<or> y = NaN then NaN else if jlt x y then y else x)"

definition jmin :: "jsnum \<Rightarrow> jsnum \<Rightarrow> jsnum" where
  "jmin x y = (if x = NaN \<or> y = NaN then NaN else if jlt y x then y else x)"

definition math_max :: "jsnum list \<Rightarrow> jsnum" where
  \<comment> \<open>\<open>Math.max(...xs)\<close>; \<open>-Infinity\<close> for no arguments\<close>
  "math_max xs = foldl jmax NegInf xs"

definition math_min :: "jsnum list \<Rightarrow> jsnum" where
  \<comment> \<open>\<open>Math.min(...xs)\<close>; \<open>Infinity\<close> for no arguments\<close>
  "math_min xs = foldl jmin PosInf xs"

definition toNumber :: "jsnum option \<Rightarrow> jsnum" where
  \<comment> \<open>an absent property reads as \<open>undefined\<close>, which a comparison converts to NaN\<close>
  "toNumber v = (case v of None \<Rightarrow> NaN | Some x \<Rightarrow> x)"

definition or_default :: "jsnum option \<Rightarrow> jsnum \<Rightarrow> jsnum" where
  \<comment> \<open>\<open>v || d\<close> on an optional number: \<open>undefined\<close>, NaN and zero are falsy\<close>
  "or_default v d =
     (case v of None \<Rightarrow> d
      | Some x \<Rightarrow> if x = NaN \<or> x = Finite 0 then d else x)"

definition in_unit_interval :: "jsnum \<Rightarrow> bool" where
  "in_unit_interval x = (case x of Finite r \<Rightarrow> 0 \<le> r \<and> r \<le> 1 | _ \<Rightarrow> False)"

section \<open>Configurations and architectures\<close>

text \<open>
  The fields are those the planner reads and writes. \<open>tokenCost\<close> is optional in a
  caller's configuration (\<open>configA.tokenCost || 0\<close>). \<open>layerDependencies\<close> and
  \<open>constraints\<close> are optional in an architecture, and so is each constraint.
  The identifier field is \<open>config_id\<close>.
\<close>

record configuration =
  config_id :: string
  layerSequence :: "string list"
  confidenceThreshold :: jsnum
  parallelizationFactor :: jsnum
  processingMode :: string
  tokenCost :: "jsnum option"

record constraints =
  maxTokens :: "jsnum option"
  minConfidence :: "jsnum option"

record architecture =
  layerDependencies :: "(string \<rightharpoonup> string list) option"
  constraints :: "constraints option"

definition constraint_maxTokens :: "architecture \<Rightarrow> jsnum option" where
  \<comment> \<open>\<open>architecture.constraints?.maxTokens\<close>\<close>
  "constraint_maxTokens arch =
     (case constraints arch of None \<Rightarrow> None | Some cs \<Rightarrow> maxTokens cs)"

definition constraint_minConfidence :: "architecture \<Rightarrow> jsnum option" where
  \<comment> \<open>\<open>architecture.constraints?.minConfidence\<close>\<close>
  "constraint_minConfidence arch =
     (case constraints arch of None \<Rightarrow> None | Some cs \<Rightarrow> minConfidence cs)"

section \<open>Validity of a configuration\<close>

definition dependencies_of :: "architecture \<Rightarrow> string \<Rightarrow> string list" where
  \<comment> \<open>\<open>(architecture.layerDependencies || {})[current] || []\<close>\<close>
  "dependencies_of arch current =
     (case layerDependencies arch of
        None \<Rightarrow> []
      | Some deps \<Rightarrow> (case deps current of None \<Rightarrow> [] | Some ds \<Rightarrow> ds))"

definition hasRequiredDeps :: "architecture \<Rightarrow> string list \<Rightarrow> nat \<Rightarrow> bool" where
  \<comment> \<open>every dependency of \<open>sequence[i]\<close> occurs in \<open>sequence.slice(0, i)\<close>\<close>
  "hasRequiredDeps arch sequence i =
     list_all (\<lambda>dep. dep \<in> set (take i sequence)) (dependencies_of arch (sequence ! i))"

definition dependenciesSatisfied :: "string list \<Rightarrow> architecture \<Rightarrow> bool" where
  \<comment> \<open>the loop of \<open>_isLayerSequenceValid\<close>, from index 1 to the last index\<close>
  "dependenciesSatisfied sequence arch =
     list_all (hasRequiredDeps arch sequence) [1..<length sequence]"

definition isLayerSequenceValid :: "string list \<Rightarrow> architecture \<Rightarrow> bool" where
  "isLayerSequenceValid sequence arch =
     (if ''Input'' \<notin> set sequence \<or> ''Output'' \<notin> set sequence then False
      else dependenciesSatisfied sequence arch)"

definition isValidConfig :: "configuration \<Rightarrow> architecture \<Rightarrow> bool" where
  \<comment> \<open>\<open>_isValid\<close>\<close>
  "isValidConfig config arch =
     (if \<not> isLayerSequenceValid (layerSequence config) arch then False
      else if jgt (toNumber (tokenCost config)) (toNumber (constraint_maxTokens arch)) then False
      else if jlt (confidenceThreshold config) (toNumber (constraint_minConfidence arch)) then False
      else True)"

section \<open>The environment: \<open>Math.random\<close> and \<open>Date.now\<close>\<close>

text \<open>
  The planner reads two sources outside the program: \<open>Math.random()\<close> and
  \<open>Date.now()\<close>. A \<open>world\<close> fixes what the k-th call of each returns, and the
  functions that call them pass on how many calls were made (\<open>calls\<close>). A statement
  for every world holds for every outcome of the random choices.
\<close>

record world =
  math_random :: "nat \<Rightarrow> real"
  date_now :: "nat \<Rightarrow> nat"

record calls =
  randomCalls :: nat
  nowCalls :: nat

definition digit_char :: "nat \<Rightarrow> char" where
  "digit_char d = ''0123456789'' ! d"

fun show_nat :: "nat \<Rightarrow> string" where
  "show_nat n = (if n < 10 then [digit_char n] else show_nat (n div 10) @ [digit_char (n mod 10)])"

declare show_nat.simps [simp del]

section \<open>The local planner\<close>

record planner_options =
  interpolationSteps :: nat
  collisionCheckEnabled :: bool
  maxTransitionCost :: jsnum

record planner_arguments =
  arg_interpolationSteps :: "nat option"
  arg_collisionCheckEnabled :: "bool option"
  arg_maxTransitionCost :: "jsnum option"

definition newLocalPlanner :: "planner_arguments \<Rightarrow> planner_options" where
  \<comment> \<open>the constructor: each default is overwritten by \<open>...options\<close> when the caller
      gave the property, so a given value is kept as it is (zero included)\<close>
  "newLocalPlanner args =
     \<lparr> interpolationSteps = (case arg_interpolationSteps args of None \<Rightarrow> 5 | Some n \<Rightarrow> n),
       collisionCheckEnabled = (case arg_collisionCheckEnabled args of None \<Rightarrow> True | Some b \<Rightarrow> b),
       maxTransitionCost = (case arg_maxTransitionCost args of None \<Rightarrow> Finite 500 | Some c \<Rightarrow> c) \<rparr>"

subsection \<open>Interpolation\<close>

definition lerp :: "jsnum \<Rightarrow> jsnum \<Rightarrow> jsnum \<Rightarrow> jsnum" where
  "lerp a b t = jadd (jmul a (jsub (Finite 1) t)) (jmul b t)"

definition pushUnique :: "string list \<Rightarrow> string \<Rightarrow> string list" where
  \<comment> \<open>\<open>if (!hybrid.includes(x)) hybrid.push(x)\<close>\<close>
  "pushUnique hybrid x = (if x \<in> set hybrid then hybrid else hybrid @ [x])"

definition blendStep ::
  "world \<Rightarrow> string list \<Rightarrow> string list \<Rightarrow> jsnum \<Rightarrow> nat \<Rightarrow> string list \<times> nat \<Rightarrow> string list \<times> nat" where
  \<comment> \<open>one turn of the loop of \<open>_interpolateSequence\<close>; the state is the hybrid and the
      number of \<open>Math.random\<close> calls made. \<open>Math.random\<close> is called only when
      \<open>i < seqA.length\<close>.\<close>
  "blendStep w seqA seqB t i s =
     (let hybrid = fst s; n = snd s in
      if i < length seqA then
        (if jgt (Finite (math_random w n)) t then (pushUnique hybrid (seqA ! i), Suc n)
         else if i < length seqB then (pushUnique hybrid (seqB ! i), Suc n)
         else (hybrid, Suc n))
      else if i < length seqB then (pushUnique hybrid (seqB ! i), n)
      else (hybrid, n))"

definition ensureInputOutput :: "string list \<Rightarrow> string list" where
  \<comment> \<open>\<open>unshift('Input')\<close> and \<open>push('Output')\<close> when missing\<close>
  "ensureInputOutput hybrid =
     (let h1 = (if ''Input'' \<in> set hybrid then hybrid else ''Input'' # hybrid)
      in if ''Output'' \<in> set h1 then h1 else h1 @ [''Output''])"

definition interpolateSequence ::
  "world \<Rightarrow> string list \<Rightarrow> string list \<Rightarrow> jsnum \<Rightarrow> nat \<Rightarrow> string list \<times> nat" where
  "interpolateSequence w seqA seqB t n =
     (if jeq t (Finite 0) then (seqA, n)
      else if jeq t (Finite 1) then (seqB, n)
      else
        (let s = fold (blendStep w seqA seqB t) [0..<max (length seqA) (length seqB)] ([], n)
         in (ensureInputOutput (fst s), snd s)))"

definition waypointAt ::
  "planner_options \<Rightarrow> world \<Rightarrow> configuration \<Rightarrow> configuration \<Rightarrow> nat \<Rightarrow> calls \<Rightarrow> configuration \<times> calls" where
  \<comment> \<open>the body of the loop of \<open>_interpolate\<close> for index \<open>i\<close>\<close>
  "waypointAt opts w configA configB i st =
     (let t = jdiv (Finite (real i)) (Finite (real (interpolationSteps opts)));
          sq = interpolateSequence w (layerSequence configA) (layerSequence configB) t (randomCalls st)
      in (\<lparr> config_id = ''waypoint_'' @ show_nat i @ ''_'' @ show_nat (date_now w (nowCalls st)),
            layerSequence = fst sq,
            confidenceThreshold = lerp (confidenceThreshold configA) (confidenceThreshold configB) t,
            parallelizationFactor =
              jround (lerp (parallelizationFactor configA) (parallelizationFactor configB) t),
            processingMode =
              (if jlt t (Finite (1/2)) then processingMode configA else processingMode configB),
            tokenCost =
              Some (jround (lerp (or_default (tokenCost configA) (Finite 0))
                                 (or_default (tokenCost configB) (Finite 0)) t)) \<rparr>,
          \<lparr> randomCalls = snd sq, nowCalls = Suc (nowCalls st) \<rparr>))"

definition interpolateStep ::
  "planner_options \<Rightarrow> world \<Rightarrow> configuration \<Rightarrow> configuration \<Rightarrow> nat \<Rightarrow>
   configuration list \<times> calls \<Rightarrow> configuration list \<times> calls" where
  "interpolateStep opts w configA configB i s =
     (let r = waypointAt opts w configA configB i (snd s) in (fst s @ [fst r], snd r))"

definition interpolate ::
  "planner_options \<Rightarrow> world \<Rightarrow> configuration \<Rightarrow> configuration \<Rightarrow> calls \<Rightarrow> configuration list \<times> calls" where
  \<comment> \<open>\<open>for (let i = 0; i <= steps; i++)\<close>\<close>
  "interpolate opts w configA configB st =
     fold (interpolateStep opts w configA configB) [0..<Suc (interpolationSteps opts)] ([], st)"

subsection \<open>Transition cost and probability\<close>

definition lengthDiff :: "string list \<Rightarrow> string list \<Rightarrow> jsnum" where
  \<comment> \<open>\<open>Math.abs(a.length - b.length)\<close>\<close>
  "lengthDiff a b = Finite \<bar>real (length a) - real (length b)\<bar>"

definition computeTransitionCost :: "configuration \<Rightarrow> configuration \<Rightarrow> architecture \<Rightarrow> jsnum" where
  "computeTransitionCost wp1 wp2 arch =
     (let cost1 = jadd (Finite 0) (jmul (lengthDiff (layerSequence wp1) (layerSequence wp2)) (Finite 50));
          cost2 = (if processingMode wp1 \<noteq> processingMode wp2 then jadd cost1 (Finite 100) else cost1);
          confDiff = jabs (jsub (confidenceThreshold wp1) (confidenceThreshold wp2));
          cost3 = jadd cost2 (jmul confDiff (Finite 80))
      in jadd cost3 (Finite 30))"

definition configDistance :: "configuration \<Rightarrow> configuration \<Rightarrow> jsnum" where
  "configDistance configA configB =
     (let maxLen = max (length (layerSequence configA)) (length (layerSequence configB));
          seqDiff = jdiv (lengthDiff (layerSequence configA) (layerSequence configB)) (Finite (real maxLen));
          d1 = jadd (Finite 0) (jmul seqDiff (Finite 40));
          confDiff = jabs (jsub (confidenceThreshold configA) (confidenceThreshold configB));
          d2 = jadd d1 (jmul confDiff (Finite 30));
          parDiff = jdiv (jabs (jsub (parallelizationFactor configA) (parallelizationFactor configB))) (Finite 4)
      in jadd d2 (jmul parDiff (Finite 30)))"

definition layerCompatibility :: "string list \<Rightarrow> string list \<Rightarrow> jsnum" where
  \<comment> \<open>Jaccard similarity of the two token sets; \<open>0 / 0\<close> when both are empty\<close>
  "layerCompatibility seqA seqB =
     (let setA = remdups seqA; setB = remdups seqB;
          intersection = filter (\<lambda>x. x \<in> set setB) setA;
          union = remdups (setA @ setB)
      in jdiv (Finite (real (length intersection))) (Finite (real (length union))))"

definition computeTransitionProbability :: "configuration \<Rightarrow> configuration \<Rightarrow> architecture \<Rightarrow> jsnum" where
  "computeTransitionProbability wp1 wp2 arch =
     (let distance = configDistance wp1 wp2;
          distanceFactor = jexp (jdiv (jneg distance) (Finite 50));
          p1 = jmul (Finite 1) distanceFactor;
          p2 = (if isValidConfig wp2 arch then jmul p1 (lit (12/10)) else jmul p1 (lit (3/10)));
          compatibility = layerCompatibility (layerSequence wp1) (layerSequence wp2);
          p3 = jmul p2 compatibility
      in jmin (Finite 1) (jmax (Finite 0) p3))"

definition canConnect :: "configuration \<Rightarrow> configuration \<Rightarrow> jsnum \<Rightarrow> bool" where
  \<comment> \<open>\<open>distance <= maxDistance\<close>\<close>
  "canConnect configA configB maxDistance =
     (let distance = configDistance configA configB
      in jlt distance maxDistance \<or> jeq distance maxDistance)"

subsection \<open>\<open>plan\<close>\<close>

record plan_result =
  waypoints :: "configuration list"
  cost :: jsnum
  probability :: jsnum
  isValid :: bool
  numSteps :: nat

record plan_state =
  st_isValid :: bool
  st_totalCost :: jsnum
  st_cumulativeProbability :: jsnum

fun plan_loop ::
  "planner_options \<Rightarrow> architecture \<Rightarrow> configuration list \<Rightarrow> plan_state \<Rightarrow> plan_state" where
  \<comment> \<open>the loop over \<open>i < waypoints.length - 1\<close>, on the waypoints from index \<open>i\<close> on\<close>
  "plan_loop opts arch (wp1 # wp2 # rest) s =
     (if collisionCheckEnabled opts \<and> \<not> isValidConfig wp1 arch
      then s\<lparr> st_isValid := False \<rparr>
      else
        (let s' = s\<lparr> st_totalCost := jadd (st_totalCost s) (computeTransitionCost wp1 wp2 arch),
                     st_cumulativeProbability :=
                       jmul (st_cumulativeProbability s) (computeTransitionProbability wp1 wp2 arch) \<rparr>
         in if jgt (st_totalCost s') (maxTransitionCost opts)
            then s'\<lparr> st_isValid := False \<rparr>
            else plan_loop opts arch (wp2 # rest) s'))"
| "plan_loop opts arch wps s = s"

definition plan_initial :: plan_state where
  "plan_initial = \<lparr> st_isValid = True, st_totalCost = Finite 0, st_cumulativeProbability = Finite 1 \<rparr>"

text \<open>
  \<open>plan\<close> is declared \<open>async\<close>: a call runs the body and returns a promise of the
  result. The result is read from the promise by \<open>await\<close>. Reading a property such as
  \<open>isValid\<close> or \<open>cost\<close> from the promise object itself gives \<open>undefined\<close>.
\<close>

datatype 'a promise = Fulfilled 'a

fun await :: "'a promise \<Rightarrow> 'a" where
  "await (Fulfilled r) = r"

datatype jsval = Undefined | Boolean bool | Number jsnum

definition promise_isValid :: "'a promise \<Rightarrow> jsval" where
  \<comment> \<open>\<open>result.isValid\<close> on a promise object\<close>
  "promise_isValid p = Undefined"

definition promise_cost :: "'a promise \<Rightarrow> jsval" where
  \<comment> \<open>\<open>result.cost\<close> on a promise object\<close>
  "promise_cost p = Undefined"

fun truthy :: "jsval \<Rightarrow> bool" where
  "truthy Undefined = False"
| "truthy (Boolean b) = b"
| "truthy (Number x) = (x \<noteq> NaN \<and> x \<noteq> Finite 0)"

fun valueToNumber :: "jsval \<Rightarrow> jsnum" where
  "valueToNumber Undefined = NaN"
| "valueToNumber (Boolean b) = (if b then Finite 1 else Finite 0)"
| "valueToNumber (Number x) = x"

definition plan ::
  "planner_options \<Rightarrow> world \<Rightarrow> configuration \<Rightarrow> configuration \<Rightarrow> architecture \<Rightarrow> calls \<Rightarrow>
   plan_result promise \<times> calls" where
  "plan opts w configA configB arch st =
     (let wps = interpolate opts w configA configB st;
          s = plan_loop opts arch (fst wps) plan_initial
      in (Fulfilled \<lparr> waypoints = (if st_isValid s then fst wps else []),
                      cost = st_totalCost s,
                      probability = st_cumulativeProbability s,
                      isValid = st_isValid s,
                      numSteps = length (fst wps) \<rparr>,
          snd wps))"

subsection \<open>\<open>optimizePath\<close>\<close>

fun scanCandidates ::
  "planner_options \<Rightarrow> world \<Rightarrow> configuration list \<Rightarrow> architecture \<Rightarrow> nat \<Rightarrow> nat list \<Rightarrow> calls \<Rightarrow>
   nat \<times> calls" where
  \<comment> \<open>the inner loop, over the candidate indices still to try; \<open>farthest\<close> stays
      \<open>current + 1\<close> when none is accepted. The call of \<open>plan\<close> is not awaited.\<close>
  "scanCandidates opts w wps arch current [] st = (current + 1, st)"
| "scanCandidates opts w wps arch current (i # is) st =
     (let r = plan opts w (wps ! current) (wps ! i) arch st;
          result = fst r
      in if truthy (promise_isValid result) \<and>
            jlt (valueToNumber (promise_cost result)) (maxTransitionCost opts)
         then (i, snd r)
         else scanCandidates opts w wps arch current is (snd r))"

lemma scanCandidates_current:
  "fst (scanCandidates opts w wps arch current is st) = current + 1 \<or>
   fst (scanCandidates opts w wps arch current is st) \<in> set is"
  by (induction "is" arbitrary: st) (auto simp: Let_def)

function optimizeLoop ::
  "planner_options \<Rightarrow> world \<Rightarrow> configuration list \<Rightarrow> architecture \<Rightarrow> nat \<Rightarrow>
   configuration list \<Rightarrow> calls \<Rightarrow> configuration list \<times> calls" where
  \<comment> \<open>\<open>while (current < waypoints.length - 1)\<close>; the candidates are
      \<open>waypoints.length - 1\<close> down to \<open>current + 2\<close>\<close>
  "optimizeLoop opts w wps arch current optimized st =
     (if current < length wps - 1 then
        (let r = scanCandidates opts w wps arch current (rev [current + 2..<length wps]) st;
             farthest = fst r
         in optimizeLoop opts w wps arch farthest (optimized @ [wps ! farthest]) (snd r))
      else (optimized, st))"
  by pat_completeness auto
termination
proof (relation "measure (\<lambda>(opts, w, wps, arch, current, optimized, st). length wps - current)")
  show "wf (measure (\<lambda>(opts, w, wps, arch, current, optimized, st). length wps - current))"
    by simp
next
  fix opts :: planner_options and w :: world and wps :: "configuration list"
    and arch :: architecture and current :: nat and optimized :: "configuration list"
    and st :: calls and r farthest
  assume lt: "current < length wps - 1"
    and r: "r = scanCandidates opts w wps arch current (rev [current + 2..<length wps]) st"
    and f: "farthest = fst r"
  from scanCandidates_current [of opts w wps arch current "rev [current + 2..<length wps]" st]
  have "current < farthest" using r f by auto
  then show "((opts, w, wps, arch, farthest, optimized @ [wps ! farthest], snd r),
              (opts, w, wps, arch, current, optimized, st))
             \<in> measure (\<lambda>(opts, w, wps, arch, current, optimized, st). length wps - current)"
    using lt by simp
qed

declare optimizeLoop.simps [simp del]

definition optimizePath ::
  "planner_options \<Rightarrow> world \<Rightarrow> configuration list \<Rightarrow> architecture \<Rightarrow> calls \<Rightarrow>
   configuration list \<times> calls" where
  "optimizePath opts w wps arch st =
     (if length wps \<le> 2 then (wps, st)
      else optimizeLoop opts w wps arch 0 [wps ! 0] st)"

section \<open>The path ranker\<close>

text \<open>
  A path arrives with its aggregate metrics. Each metric is a finite number or is
  absent, and each weight is a finite number; a metric or a weight is given as a real and
  read as the double nearest to it. The path itself is an object that the
  ranker only compares by identity (\<open>===\<close>); the type \<open>'p\<close> is the type of
  such references. A ranked path holds the given metrics (\<open>r_metrics\<close>) and, beside
  them, what \<open>rank\<close> adds to the metrics object (\<open>r_normalized\<close>,
  \<open>r_reliability\<close>, \<open>r_confidence95\<close>); its rank is \<open>rank_no\<close>.
\<close>

record metrics =
  pathProbability :: "real option"
  totalCost :: "real option"
  pathLength :: "real option"
  entropy :: "real option"

record 'p path_data =
  path :: 'p
  metrics :: metrics

record weights =
  w_probability :: real
  w_cost :: real
  w_length :: real
  w_entropy :: real

record ranker_options =
  weights :: weights

definition default_weights :: weights where
  "default_weights = \<lparr> w_probability = 35/100, w_cost = 30/100, w_length = 15/100, w_entropy = 20/100 \<rparr>"

definition newPathRanker :: "weights option \<Rightarrow> ranker_options" where
  "newPathRanker given = \<lparr> weights = (case given of None \<Rightarrow> default_weights | Some w \<Rightarrow> w) \<rparr>"

definition metric_number :: "real option \<Rightarrow> jsnum" where
  \<comment> \<open>a metric read as a number: absent is \<open>undefined\<close>, which arithmetic turns into NaN\<close>
  "metric_number v = (case v of None \<Rightarrow> NaN | Some x \<Rightarrow> lit x)"

definition metric_or :: "real option \<Rightarrow> real \<Rightarrow> jsnum" where
  \<comment> \<open>\<open>m.metric || d\<close>: an absent metric and a metric of zero both give the default\<close>
  "metric_or v d = (case v of None \<Rightarrow> lit d | Some x \<Rightarrow> if fl x = 0 then lit d else lit x)"

record normalized =
  n_probability :: jsnum
  n_cost :: jsnum
  n_length :: jsnum
  n_entropy :: jsnum

definition normalizeValue :: "jsnum \<Rightarrow> jsnum \<Rightarrow> jsnum \<Rightarrow> jsnum" where
  \<comment> \<open>\<open>_normalize\<close>\<close>
  "normalizeValue v mn mx = (if jeq mx mn then Finite (1/2) else jdiv (jsub v mn) (jsub mx mn))"

definition normalizeMetrics :: "metrics \<Rightarrow> 'p path_data list \<Rightarrow> normalized" where
  "normalizeMetrics m allPaths =
     (let allMetrics = map metrics allPaths;
          probability_min = math_min (map (\<lambda>m. metric_or (pathProbability m) 0) allMetrics);
          probability_max = math_max (map (\<lambda>m. metric_or (pathProbability m) 1) allMetrics);
          cost_min = math_min (map (\<lambda>m. metric_or (totalCost m) 0) allMetrics);
          cost_max = math_max (map (\<lambda>m. metric_or (totalCost m) 1000) allMetrics);
          length_min = math_min (map (\<lambda>m. metric_or (pathLength m) 1) allMetrics);
          length_max = math_max (map (\<lambda>m. metric_or (pathLength m) 10) allMetrics);
          entropy_min = math_min (map (\<lambda>m. metric_or (entropy m) 0) allMetrics);
          entropy_max = math_max (map (\<lambda>m. metric_or (entropy m) 5) allMetrics)
      in \<lparr> n_probability = normalizeValue (metric_or (pathProbability m) 0) probability_min probability_max,
           n_cost = jsub (Finite 1) (normalizeValue (metric_or (totalCost m) 0) cost_min cost_max),
           n_length = jsub (Finite 1) (normalizeValue (metric_or (pathLength m) 1) length_min length_max),
           n_entropy = jsub (Finite 1) (normalizeValue (metric_or (entropy m) 0) entropy_min entropy_max) \<rparr>)"

definition calculateCompositeScore :: "normalized \<Rightarrow> weights \<Rightarrow> jsnum" where
  "calculateCompositeScore n w =
     jadd (jadd (jadd (jmul (n_probability n) (lit (w_probability w)))
                      (jmul (n_cost n) (lit (w_cost w))))
                (jmul (n_length n) (lit (w_length w))))
          (jmul (n_entropy n) (lit (w_entropy w)))"

datatype level = High | Medium | Low

record reliability =
  score :: "real option"
  level :: level

definition calculateReliability :: "real option \<Rightarrow> reliability" where
  \<comment> \<open>the label is chosen by the same two tests as the level\<close>
  "calculateReliability p =
     \<lparr> score = p,
       level = (if jgt (metric_number p) (lit (8/10)) then High
                else if jgt (metric_number p) (Finite (5/10)) then Medium else Low) \<rparr>"

fun jsqrt :: "jsnum \<Rightarrow> jsnum" where
  "jsqrt (Finite a) = (if a < 0 then NaN else Finite (fl (sqrt a)))"
| "jsqrt NegInf = NaN"
| "jsqrt x = x"

record interval =
  lower :: jsnum
  point :: "real option"
  upper :: jsnum
  margin :: jsnum
  width :: jsnum

definition wilson95Interval :: "real option \<Rightarrow> jsnum \<Rightarrow> interval" where
  "wilson95Interval p n =
     (let z = lit (196/100);
          pn = metric_number p;
          denominator = jadd (Finite 1) (jdiv (jmul z z) n);
          center = jdiv (jadd pn (jdiv (jmul z z) (jmul (Finite 2) n))) denominator;
          mg = jdiv (jmul z (jsqrt (jadd (jdiv (jmul pn (jsub (Finite 1) pn)) n)
                                         (jdiv (jmul z z) (jmul (jmul (Finite 4) n) n)))))
                    denominator
      in \<lparr> lower = jmax (Finite 0) (jsub center mg),
           point = p,
           upper = jmin (Finite 1) (jadd center mg),
           margin = mg,
           width = jmul (Finite 2) mg \<rparr>)"

datatype action = Recommend | Consider | Avoid

definition generateRecommendation :: "jsnum \<Rightarrow> reliability \<Rightarrow> action" where
  \<comment> \<open>the message and the priority are fixed by the action\<close>
  "generateRecommendation sc rel =
     (if jgt sc (lit (8/10)) \<and> level rel = High then Recommend
      else if jgt sc (lit (6/10)) \<and> level rel \<noteq> Low then Consider
      else Avoid)"

record 'p ranked_path =
  rank_no :: nat
  r_path :: 'p
  r_metrics :: metrics
  r_normalized :: normalized
  r_reliability :: reliability
  r_confidence95 :: interval
  compositeScore :: jsnum
  recommendation :: action

text \<open>
  \<open>Array.prototype.sort\<close> with a comparator. ECMAScript requires the sort to be stable
  and, for a consistent comparator, to leave the elements in the comparator's order; a
  NaN returned by the comparator counts as zero. A stable insertion sort is such a sort.
  For a comparator that is not consistent the standard leaves the order to the
  implementation, and the statements below about the order of \<open>rank\<close> first show that
  every score is finite.
\<close>

fun insertSorted :: "('a \<Rightarrow> 'a \<Rightarrow> jsnum) \<Rightarrow> 'a \<Rightarrow> 'a list \<Rightarrow> 'a list" where
  "insertSorted cmp x [] = [x]"
| "insertSorted cmp x (y # ys) =
     (if jgt (cmp x y) (Finite 0) then y # insertSorted cmp x ys else x # y # ys)"

definition array_sort :: "('a \<Rightarrow> 'a \<Rightarrow> jsnum) \<Rightarrow> 'a list \<Rightarrow> 'a list" where
  "array_sort cmp xs = foldr (insertSorted cmp) xs []"

definition byScoreDescending :: "'p ranked_path \<Rightarrow> 'p ranked_path \<Rightarrow> jsnum" where
  \<comment> \<open>\<open>(a, b) => b.compositeScore - a.compositeScore\<close>\<close>
  "byScoreDescending a b = jsub (compositeScore b) (compositeScore a)"

definition rankOne :: "weights \<Rightarrow> 'p path_data list \<Rightarrow> 'p path_data \<Rightarrow> 'p ranked_path" where
  \<comment> \<open>the callback of \<open>paths.map\<close> in \<open>rank\<close>\<close>
  "rankOne w paths pathData =
     (let m = metrics pathData;
          n = normalizeMetrics m paths;
          sc = calculateCompositeScore n w;
          rel = calculateReliability (pathProbability m);
          confidence95 = wilson95Interval (pathProbability m) (Finite 100)
      in \<lparr> rank_no = 0,
           r_path = path pathData,
           r_metrics = m,
           r_normalized = n,
           r_reliability = rel,
           r_confidence95 = confidence95,
           compositeScore = sc,
           recommendation = generateRecommendation sc rel \<rparr>)"

definition assignRanks :: "'p ranked_path list \<Rightarrow> 'p ranked_path list" where
  \<comment> \<open>\<open>ranked.forEach((item, idx) => { item.rank = idx + 1 })\<close>\<close>
  "assignRanks ranked = map (\<lambda>(idx, item). item\<lparr> rank_no := idx + 1 \<rparr>) (enumerate 0 ranked)"

definition rank :: "ranker_options \<Rightarrow> 'p path_data list \<Rightarrow> weights option \<Rightarrow> 'p ranked_path list" where
  \<comment> \<open>the third argument is \<open>options.weights\<close> of the call\<close>
  "rank opts paths given =
     (let w = (case given of None \<Rightarrow> weights opts | Some w \<Rightarrow> w);
          ranked = map (rankOne w paths) paths
      in assignRanks (array_sort byScoreDescending ranked))"

subsection \<open>Sensitivity analysis\<close>

datatype error = TypeError

record 'p rank_change =
  rc_path :: 'p
  baseRank :: nat
  variedRank :: nat
  change :: int

record 'p analysis =
  a_weights :: weights
  ranking :: "'p ranked_path list"
  rankChanges :: "'p rank_change list"
  maxChange :: jsnum

record 'p sensitivity =
  baseRanking :: "'p ranked_path list"
  analyses :: "'p analysis list"
  stability :: jsnum

fun rankChangesOf :: "'p ranked_path list \<Rightarrow> 'p ranked_path list \<Rightarrow> error + 'p rank_change list" where
  \<comment> \<open>\<open>baseRanking.map\<close>; reading \<open>rank\<close> of a path that \<open>find\<close> did not find throws\<close>
  "rankChangesOf [] varied = Inr []"
| "rankChangesOf (basePath # rest) varied =
     (case find (\<lambda>v. r_path v = r_path basePath) varied of
        None \<Rightarrow> Inl TypeError
      | Some variedPath \<Rightarrow>
          (case rankChangesOf rest varied of
             Inl e \<Rightarrow> Inl e
           | Inr cs \<Rightarrow>
               Inr (\<lparr> rc_path = r_path basePath,
                      baseRank = rank_no basePath,
                      variedRank = rank_no variedPath,
                      change = int (rank_no variedPath) - int (rank_no basePath) \<rparr> # cs)))"

definition analyse ::
  "ranker_options \<Rightarrow> 'p path_data list \<Rightarrow> 'p ranked_path list \<Rightarrow> weights \<Rightarrow> error + 'p analysis" where
  \<comment> \<open>the callback of \<open>weightVariations.map\<close>\<close>
  "analyse opts paths base w =
     (let variedRanking = rank opts paths (Some w)
      in case rankChangesOf base variedRanking of
           Inl e \<Rightarrow> Inl e
         | Inr cs \<Rightarrow>
             Inr \<lparr> a_weights = w,
                   ranking = variedRanking,
                   rankChanges = cs,
                   maxChange = math_max (map (\<lambda>c. Finite \<bar>real_of_int (change c)\<bar>) cs) \<rparr>)"

fun analyseAll ::
  "ranker_options \<Rightarrow> 'p path_data list \<Rightarrow> 'p ranked_path list \<Rightarrow> weights list \<Rightarrow> error + 'p analysis list" where
  "analyseAll opts paths base [] = Inr []"
| "analyseAll opts paths base (w # ws) =
     (case analyse opts paths base w of
        Inl e \<Rightarrow> Inl e
      | Inr a \<Rightarrow> (case analyseAll opts paths base ws of Inl e \<Rightarrow> Inl e | Inr as \<Rightarrow> Inr (a # as)))"

definition calculateStability :: "'p analysis list \<Rightarrow> jsnum" where
  "calculateStability as =
     (if length as = 0 then Finite 1
      else
        (let avgMaxChange = jdiv (foldl jadd (Finite 0) (map maxChange as)) (Finite (real (length as)))
         in jmax (Finite 0) (jsub (Finite 1) (jdiv avgMaxChange (Finite 10)))))"

definition sensitivityAnalysis ::
  "ranker_options \<Rightarrow> 'p path_data list \<Rightarrow> weights list \<Rightarrow> error + 'p sensitivity" where
  "sensitivityAnalysis opts paths weightVariations =
     (let base = rank opts paths None
      in case analyseAll opts paths base weightVariations of
           Inl e \<Rightarrow> Inl e
         | Inr as \<Rightarrow> Inr \<lparr> baseRanking = base, analyses = as, stability = calculateStability as \<rparr>)"

section \<open>Accumulated cost and probability of a waypoint sequence\<close>

text \<open>
  The cost and the probability of the \<open>k\<close> first consecutive pairs of a waypoint
  sequence, accumulated from 0 and 1 in the order of the loop of \<open>plan\<close>.
\<close>

definition transitionCosts :: "architecture \<Rightarrow> configuration list \<Rightarrow> jsnum list" where
  "transitionCosts arch wps = map (\<lambda>(a, b). computeTransitionCost a b arch) (zip wps (tl wps))"

definition transitionProbabilities :: "architecture \<Rightarrow> configuration list \<Rightarrow> jsnum list" where
  "transitionProbabilities arch wps = map (\<lambda>(a, b). computeTransitionProbability a b arch) (zip wps (tl wps))"

definition accumulatedCost :: "architecture \<Rightarrow> configuration list \<Rightarrow> nat \<Rightarrow> jsnum" where
  "accumulatedCost arch wps k = foldl jadd (Finite 0) (take k (transitionCosts arch wps))"

definition accumulatedProbability :: "architecture \<Rightarrow> configuration list \<Rightarrow> nat \<Rightarrow> jsnum" where
  "accumulatedProbability arch wps k = foldl jmul (Finite 1) (take k (transitionProbabilities arch wps))"

section \<open>Finite scores and unchanged ranks\<close>

text \<open>
  Notions used to state and prove the properties of the ranker: a number that is a finite
  value on the grid of the subnormal numbers (every double is one), the real it denotes, the key by which a descending sort orders ranked paths, and
  the rank change of a path whose rank did not move.
\<close>

definition isFiniteGrid :: "jsnum \<Rightarrow> bool" where
  "isFiniteGrid x = (case x of Finite r \<Rightarrow> onGrid r | _ \<Rightarrow> False)"



definition unchanged :: "'p ranked_path \<Rightarrow> 'p rank_change" where
  "unchanged b = \<lparr> rc_path = r_path b, baseRank = rank_no b, variedRank = rank_no b, change = 0 \<rparr>"

section \<open>Example inputs\<close>

definition worldHalf :: world where
  "worldHalf = \<lparr> math_random = (\<lambda>k. 1/2), date_now = (\<lambda>k. 1700000000000 + k) \<rparr>"

definition noCalls :: calls where
  "noCalls = \<lparr> randomCalls = 0, nowCalls = 0 \<rparr>"

definition archFree :: architecture where
  "archFree = \<lparr> layerDependencies = None, constraints = None \<rparr>"


definition configIO :: configuration where
  "configIO = \<lparr> config_id = ''a'', layerSequence = [''Input'', ''Output''],
      confidenceThreshold = lit (8/10), parallelizationFactor = Finite 2,
      processingMode = ''fast'', tokenCost = Some (Finite 100) \<rparr>"


definition configNoOutput :: configuration where
  "configNoOutput = configIO\<lparr> config_id := ''c'', layerSequence := [''Input'', ''Analysis''] \<rparr>"

definition configHalfToken :: configuration where
  "configHalfToken = configIO\<lparr> config_id := ''d'', tokenCost := Some (Finite (3/2)) \<rparr>"

definition configEmpty :: configuration where
  "configEmpty = configIO\<lparr> config_id := ''e'', layerSequence := [] \<rparr>"

definition defaultPlanner :: planner_options where
  "defaultPlanner = newLocalPlanner \<lparr> arg_interpolationSteps = None,
      arg_collisionCheckEnabled = None, arg_maxTransitionCost = None \<rparr>"


definition oneStepPlanner :: planner_options where
  "oneStepPlanner = newLocalPlanner \<lparr> arg_interpolationSteps = Some 1,
      arg_collisionCheckEnabled = None, arg_maxTransitionCost = None \<rparr>"

definition uncheckedPlanner :: planner_options where
  "uncheckedPlanner = newLocalPlanner \<lparr> arg_interpolationSteps = Some 1,
      arg_collisionCheckEnabled = Some False, arg_maxTransitionCost = None \<rparr>"



definition tightPlanner :: planner_options where
  "tightPlanner = newLocalPlanner \<lparr> arg_interpolationSteps = Some 1,
      arg_collisionCheckEnabled = None, arg_maxTransitionCost = Some (Finite 20) \<rparr>"

definition defaultRanker :: ranker_options where
  "defaultRanker = newPathRanker None"

definition zeroCostPaths :: "nat path_data list" where
  "zeroCostPaths =
     [\<lparr> path = 1, metrics = \<lparr> pathProbability = Some (9/10), totalCost = Some 0,
                              pathLength = Some 3, entropy = Some 1 \<rparr> \<rparr>,
      \<lparr> path = 2, metrics = \<lparr> pathProbability = Some (6/10), totalCost = Some 0,
                              pathLength = Some 4, entropy = Some 2 \<rparr> \<rparr>]"

definition equalCostPaths :: "nat path_data list" where
  "equalCostPaths =
     [\<lparr> path = 1, metrics = \<lparr> pathProbability = Some (9/10), totalCost = Some 120,
                              pathLength = Some 3, entropy = Some 1 \<rparr> \<rparr>,
      \<lparr> path = 2, metrics = \<lparr> pathProbability = Some (6/10), totalCost = Some 120,
                              pathLength = Some 4, entropy = Some 2 \<rparr> \<rparr>]"

definition threeWaypoints :: "configuration list" where
  "threeWaypoints = [configIO, configIO\<lparr> config_id := ''b'' \<rparr>, configIO\<lparr> config_id := ''c'' \<rparr>]"

section \<open>Rounding to the nearest double\<close>

text \<open>
  What the proofs below use of the rounding: a real with a significand of at most 53 bits
  and an exponent in range is a double and rounds to itself; the result of a rounding
  lies on the grid of the subnormal numbers; and on that grid the rounding keeps the
  sign, so that the difference of two doubles is zero only when they are equal.
\<close>

lemma onGrid_iff: "onGrid x \<longleftrightarrow> (\<exists>m::int. x = of_int m * (2::real) powr (- 1074))"
proof
  assume "onGrid x"
  then have "x = of_int \<lfloor>x / 2 powr (- 1074)\<rfloor> * 2 powr (- 1074)" by (simp only: onGrid_def)
  then show "\<exists>m::int. x = of_int m * (2::real) powr (- 1074)" by blast
next
  assume "\<exists>m::int. x = of_int m * (2::real) powr (- 1074)"
  then obtain m :: int where m: "x = of_int m * (2::real) powr (- 1074)" by blast
  have "x / 2 powr (- 1074) = of_int m" unfolding m by simp
  then have "\<lfloor>x / 2 powr (- 1074)\<rfloor> = m" by simp
  with m show "onGrid x" by (simp only: onGrid_def)
qed

lemma round_half_even_int [simp]: "round_half_even (of_int n) = n"
  by (simp add: round_half_even_def)

lemma round_half_even_bounds:
  "\<lfloor>y\<rfloor> \<le> round_half_even y" "round_half_even y \<le> \<lfloor>y\<rfloor> + 1"
  by (simp_all add: round_half_even_def Let_def)



lemma ulp_pos [simp]: "0 < ulp x"
  by (simp add: ulp_def)

lemma ulp_exponent_ge: "- 1074 \<le> ulp_exponent x"
  by (simp add: ulp_exponent_def)


lemma fl_zero [simp]: "fl 0 = 0"
  by (simp add: fl_def)

lemma pow2_diff:
  assumes "a \<le> (b::int)"
  shows "(2::real) powr of_int b = 2 ^ nat (b - a) * 2 powr of_int a"
proof -
  have "(2::real) powr of_int b = 2 powr (of_int (b - a) + of_int a)" by simp
  also have "\<dots> = 2 powr of_int (b - a) * 2 powr of_int a" by (rule powr_add)
  also have "(2::real) powr of_int (b - a) = 2 ^ nat (b - a)"
    using assms by (simp add: powr_realpow [symmetric])
  finally show ?thesis .
qed

lemma fl_exact:
  assumes x: "x = of_int m * 2 powr of_int k"
    and m: "\<bar>m\<bar> < 2 ^ 53"
    and k: "- 1074 \<le> k"
  shows "fl x = x"
proof (cases "m = 0")
  case True
  with x show ?thesis by simp
next
  case False
  then have x0: "x \<noteq> 0" using x by simp
  have ax: "\<bar>x\<bar> = of_int \<bar>m\<bar> * 2 powr of_int k"
    using x by (simp add: abs_mult)
  have "of_int \<bar>m\<bar> < (2::real) ^ 53" using m by (metis of_int_less_iff of_int_numeral of_int_power)
  then have "\<bar>x\<bar> < 2 ^ 53 * 2 powr of_int k"
    unfolding ax by (simp add: mult_strict_right_mono)
  also have "\<dots> = 2 powr (53 + of_int k)"
    by (simp add: powr_add)
  finally have lt: "\<bar>x\<bar> < 2 powr (53 + of_int k)" .
  have "log 2 \<bar>x\<bar> < 53 + of_int k"
    using lt x0 by (simp add: log_less_iff)
  then have "\<lfloor>log 2 \<bar>x\<bar>\<rfloor> < 53 + k" by linarith
  then have ue: "ulp_exponent x \<le> k"
    using k by (simp add: ulp_exponent_def)
  define u where "u = ulp x"
  define j where "j = nat (k - ulp_exponent x)"
  have u0: "u \<noteq> 0" using ulp_pos [of x] unfolding u_def by linarith
  have p: "(2::real) powr of_int k = 2 ^ j * u"
    unfolding u_def j_def ulp_def by (rule pow2_diff [OF ue])
  have xu: "x = of_int (m * 2 ^ j) * u"
    using x p by simp
  have q: "x / u = of_int (m * 2 ^ j)"
    using xu u0 by (simp add: field_simps)
  have "fl x = of_int (round_half_even (x / u)) * u"
    using x0 by (simp add: fl_def u_def)
  also have "\<dots> = of_int (m * 2 ^ j) * u"
    by (simp only: q round_half_even_int)
  also have "\<dots> = x" by (rule xu [symmetric])
  finally show ?thesis .
qed

lemma fl_onGrid: "onGrid (fl x)"
proof (cases "x = 0")
  case True
  then show ?thesis by (auto simp: onGrid_iff intro: exI [of _ 0])
next
  case False
  let ?r = "round_half_even (x / ulp x)"
  let ?j = "nat (ulp_exponent x + 1074)"
  have "ulp x = 2 ^ ?j * (2::real) powr of_int (- 1074)"
    unfolding ulp_def using pow2_diff [OF ulp_exponent_ge, of x] by simp
  then have "fl x = of_int (?r * 2 ^ ?j) * (2::real) powr (- 1074)"
    using False by (simp add: fl_def)
  then show ?thesis unfolding onGrid_iff by blast
qed


lemma onGrid_add: "onGrid a \<Longrightarrow> onGrid b \<Longrightarrow> onGrid (a + b)"
proof -
  assume "onGrid a" "onGrid b"
  then obtain m n :: int where "a = of_int m * (2::real) powr (- 1074)" "b = of_int n * (2::real) powr (- 1074)"
    unfolding onGrid_iff by blast
  then have "a + b = of_int (m + n) * (2::real) powr (- 1074)" by (simp add: algebra_simps)
  then show ?thesis unfolding onGrid_iff by blast
qed

lemma onGrid_zero [simp]: "onGrid 0"
  by (auto simp: onGrid_iff intro: exI [of _ 0])






lemma quotient_bound: "x \<noteq> 0 \<Longrightarrow> \<bar>x / ulp x\<bar> < 2 ^ 53"
proof -
  assume x0: "x \<noteq> 0"
  define l where "l = \<lfloor>log 2 \<bar>x\<bar>\<rfloor>"
  have "log 2 \<bar>x\<bar> < of_int l + 1" unfolding l_def by linarith
  then have "\<bar>x\<bar> < 2 powr (of_int l + 1)"
    using x0 by (simp add: log_less_iff)
  also have "\<dots> = 2 ^ 53 * 2 powr (of_int l - 52)"
    by (simp add: powr_diff powr_add)
  also have "\<dots> \<le> 2 ^ 53 * ulp x"
    unfolding ulp_def ulp_exponent_def l_def [symmetric]
    by (intro mult_left_mono powr_mono) simp_all
  finally have "\<bar>x\<bar> < 2 ^ 53 * ulp x" .
  then have "\<bar>x\<bar> / ulp x < 2 ^ 53"
    by (simp add: divide_less_eq)
  moreover have "\<bar>ulp x\<bar> = ulp x" using ulp_pos [of x] by linarith
  ultimately show ?thesis by (simp add: abs_divide)
qed

lemma round_half_even_abs_le:
  assumes "\<bar>y\<bar> < 2 ^ 53"
  shows "\<bar>round_half_even y\<bar> \<le> 2 ^ 53"
proof -
  have "y < of_int (2 ^ 53)" "of_int (- (2 ^ 53)) < y" using assms by simp_all
  then have "\<lfloor>y\<rfloor> < 2 ^ 53" "- (2 ^ 53) \<le> \<lfloor>y\<rfloor>"
    by (simp_all only: floor_less_iff le_floor_iff)
  with round_half_even_bounds [of y] show ?thesis by linarith
qed

lemma fl_idem [simp]: "fl (fl x) = fl x"
proof (cases "x = 0")
  case True
  then show ?thesis by simp
next
  case False
  define e where "e = ulp_exponent x"
  define r where "r = round_half_even (x / ulp x)"
  have flx: "fl x = of_int r * 2 powr of_int e"
    using False by (simp add: fl_def r_def e_def ulp_def)
  have e: "- 1074 \<le> e" unfolding e_def by (rule ulp_exponent_ge)
  have rb: "\<bar>r\<bar> \<le> 2 ^ 53"
    unfolding r_def by (intro round_half_even_abs_le quotient_bound False)
  show ?thesis
  proof (cases "\<bar>r\<bar> < 2 ^ 53")
    case True
    show ?thesis by (rule fl_exact [OF flx True e])
  next
    case False
    with rb have "\<bar>r\<bar> = 2 ^ 53" by linarith
    then consider "r = 2 ^ 53" | "r = - (2 ^ 53)" by linarith
    then show ?thesis
    proof cases
      case 1
      have "fl x = of_int 1 * 2 powr of_int (e + 53)"
        unfolding flx 1 by (simp add: powr_add)
      then show ?thesis by (rule fl_exact) (use e in simp_all)
    next
      case 2
      have "fl x = of_int (- 1) * 2 powr of_int (e + 53)"
        unfolding flx 2 by (simp add: powr_add)
      then show ?thesis by (rule fl_exact) (use e in simp_all)
    qed
  qed
qed

lemma fl_one [simp]: "fl 1 = 1"
  using fl_exact [of 1 1 0] by simp

lemma fl_half [simp]: "fl (1/2) = 1/2"
  using fl_exact [of "1/2" 1 "- 1"] by (simp add: powr_minus)

lemma fl_int: "\<bar>n\<bar> < 2 ^ 53 \<Longrightarrow> fl (of_int n) = of_int n"
  using fl_exact [of "of_int n" n 0] by simp

lemma fl_30 [simp]: "fl 30 = 30"
  using fl_int [of 30] by simp

lemma fl_1000 [simp]: "fl 1000 = 1000"
  using fl_int [of 1000] by simp

lemma fl_3_2: "fl (3/2) = 3/2"
  using fl_exact [of "3/2" 3 "- 1"] by (simp add: powr_minus)

text \<open>
  The error of one rounding is at most half a unit in the last place: a relative error of
  \<open>1 / 2 ^ 53\<close>, or \<open>2 powr -1075\<close> among the subnormal numbers. Four
  roundings make \<open>a * (1 - t) + a * t\<close>; for \<open>t\<close> between 0 and 2 the result
  is within \<open>14 * \<bar>a\<bar> / 2 ^ 53\<close> of \<open>a\<close>, apart from a multiple of
  \<open>2 powr -1075\<close>. For an integer \<open>a\<close> of magnitude at most \<open>2 ^ 47\<close>
  that is less than a half, so that \<open>Math.round\<close> gives \<open>a\<close> back.
\<close>

lemma round_half_even_err: "\<bar>of_int (round_half_even y) - y\<bar> \<le> 1/2"
proof -
  have "of_int \<lfloor>y\<rfloor> \<le> y" "y < of_int \<lfloor>y\<rfloor> + 1" by linarith+
  then show ?thesis
    unfolding round_half_even_def Let_def by (auto simp: abs_le_iff) 
qed

lemma ulp_bound:
  assumes "x \<noteq> 0"
  shows "ulp x \<le> \<bar>x\<bar> / 2 ^ 52 \<or> ulp x = 2 powr (- 1074)"
proof (cases "- 1022 \<le> \<lfloor>log 2 \<bar>x\<bar>\<rfloor>")
  case True
  then have "ulp_exponent x = \<lfloor>log 2 \<bar>x\<bar>\<rfloor> - 52" by (simp add: ulp_exponent_def)
  then have "ulp x = 2 powr (of_int \<lfloor>log 2 \<bar>x\<bar>\<rfloor> - 52)" by (simp add: ulp_def)
  also have "\<dots> = 2 powr of_int \<lfloor>log 2 \<bar>x\<bar>\<rfloor> / 2 ^ 52" by (simp add: powr_diff)
  also have "\<dots> \<le> 2 powr log 2 \<bar>x\<bar> / 2 ^ 52"
    by (intro divide_right_mono powr_mono) simp_all
  also have "2 powr log 2 \<bar>x\<bar> = \<bar>x\<bar>" using assms by simp
  finally show ?thesis by simp
next
  case False
  then have "ulp x = 2 powr (- 1074)"
    by (auto simp: ulp_def ulp_exponent_def)
  then show ?thesis by simp
qed

lemma fl_err: "\<bar>fl x - x\<bar> \<le> \<bar>x\<bar> / 2 ^ 53 + 2 powr (- 1075)"
proof (cases "x = 0")
  case True
  then show ?thesis by simp
next
  case False
  define u where "u = ulp x"
  have u: "0 < u" by (simp add: u_def)
  have "fl x = of_int (round_half_even (x / u)) * u"
    using False by (simp add: fl_def u_def)
  moreover have "x = x / u * u" using u by simp
  ultimately have "fl x - x = (of_int (round_half_even (x / u)) - x / u) * u"
    by (simp only: left_diff_distrib)
  then have "\<bar>fl x - x\<bar> = \<bar>of_int (round_half_even (x / u)) - x / u\<bar> * u"
    using u by (simp add: abs_mult)
  also have "\<dots> \<le> 1/2 * u"
    using u round_half_even_err [of "x / u"] by (intro mult_right_mono) simp_all
  finally have h: "\<bar>fl x - x\<bar> \<le> u / 2" by simp
  have t: "(2::real) powr (- 1074) / 2 = 2 powr (- 1075)"
  proof -
    have "(2::real) powr (- 1074) = 2 powr (- 1075 + 1)" by simp
    also have "\<dots> = 2 powr (- 1075) * 2" by (simp only: powr_add) simp
    finally show ?thesis by simp
  qed
  have "0 \<le> (2::real) powr (- 1075)" "0 \<le> \<bar>x\<bar> / 2 ^ 53" by simp_all
  moreover from ulp_bound [OF False] have "u / 2 \<le> \<bar>x\<bar> / 2 ^ 53 \<or> u / 2 = 2 powr (- 1075)"
    unfolding u_def using t by auto
  ultimately show ?thesis using h by linarith
qed

lemma fl_nonneg: "0 \<le> x \<Longrightarrow> 0 \<le> fl x"
proof -
  assume x: "0 \<le> x"
  have "0 \<le> x / ulp x" using x ulp_pos [of x] by (intro divide_nonneg_pos)
  then have "0 \<le> \<lfloor>x / ulp x\<rfloor>" by simp
  with round_half_even_bounds(1) [of "x / ulp x"] have "0 \<le> round_half_even (x / ulp x)" by linarith
  then have "0 \<le> real_of_int (round_half_even (x / ulp x)) * ulp x"
    using less_imp_le [OF ulp_pos [of x]] by (intro mult_nonneg_nonneg) simp_all
  then show ?thesis by (simp add: fl_def)
qed

lemma tiny_le: "(2::real) powr (- 1075) \<le> 1 / 2 ^ 53"
proof -
  have "(2::real) powr (- 1075) \<le> 2 powr (- 53)" by (intro powr_mono) simp_all
  also have "(2::real) powr (- 53) = 1 / 2 ^ 53" by (simp add: powr_minus_divide)
  finally show ?thesis .
qed

lemma lerp_self_err:
  assumes t0: "0 \<le> t" and t2: "t \<le> 2"
  shows "\<bar>fl (fl (a * fl (1 - t)) + fl (a * t)) - a\<bar> \<le> 14 * \<bar>a\<bar> / 2 ^ 53 + (\<bar>a\<bar> + 5) * 2 powr (- 1075)"
proof -
  define e :: real where "e = 1 / 2 ^ 53"
  define d :: real where "d = 2 powr (- 1075)"
  define s where "s = fl (1 - t)"
  define p where "p = fl (a * s)"
  define q where "q = fl (a * t)"
  define r where "r = fl (p + q)"
  define A where "A = \<bar>a\<bar>"
  have e: "0 \<le> e" "e \<le> 1" by (simp_all add: e_def)
  have d: "0 \<le> d" "d \<le> e" using tiny_le by (simp_all add: d_def e_def)
  have A: "0 \<le> A" by (simp add: A_def)
  have err: "\<And>x. \<bar>fl x - x\<bar> \<le> \<bar>x\<bar> * e + d"
    using fl_err by (simp add: e_def d_def)
  have t1: "\<bar>1 - t\<bar> \<le> 1" using t0 t2 by simp
  have "\<bar>1 - t\<bar> * e \<le> 1 * e" using t1 e by (intro mult_right_mono) simp_all
  with err [of "1 - t"] have s1: "\<bar>s - (1 - t)\<bar> \<le> e + d" by (simp add: s_def)
  then have s3: "\<bar>s\<bar> \<le> 3" using t1 e d by linarith
  have tb: "\<bar>t\<bar> \<le> 2" using t0 t2 by simp
  have as: "\<bar>a * s\<bar> \<le> A * 3"
    unfolding abs_mult A_def using s3 by (intro mult_left_mono) simp_all
  have at: "\<bar>a * t\<bar> \<le> A * 2"
    unfolding abs_mult A_def using tb by (intro mult_left_mono) simp_all
  have "\<bar>a * s\<bar> * e \<le> (A * 3) * e" using as e by (intro mult_right_mono) simp_all
  with err [of "a * s"] have p1: "\<bar>p - a * s\<bar> \<le> 3 * (A * e) + d" by (simp add: p_def)
  have "\<bar>a * t\<bar> * e \<le> (A * 2) * e" using at e by (intro mult_right_mono) simp_all
  with err [of "a * t"] have q1: "\<bar>q - a * t\<bar> \<le> 2 * (A * e) + d" by (simp add: q_def)
  have "a * s + a * t - a = a * (s - (1 - t))" by (simp add: algebra_simps)
  then have "\<bar>a * s + a * t - a\<bar> = A * \<bar>s - (1 - t)\<bar>" by (simp add: abs_mult A_def)
  also have "\<dots> \<le> A * (e + d)" using s1 A by (intro mult_left_mono) simp_all
  finally have c1: "\<bar>a * s + a * t - a\<bar> \<le> A * e + A * d" by (simp add: algebra_simps)
  have Ae: "A * e \<le> A" using A e mult_left_mono [of e 1 A] by simp
  have Ad: "A * d \<le> A * e" using A d by (intro mult_left_mono) simp_all
  have Ae0: "0 \<le> A * e" using A e by simp
  have Ad0: "0 \<le> A * d" using A d by simp
  have pq: "\<bar>p + q\<bar> \<le> 8 * A + 2 * d"
    using p1 q1 c1 Ae Ad Ae0 Ad0 A_def by linarith
  have "\<bar>p + q\<bar> * e \<le> (8 * A + 2 * d) * e" using pq e by (intro mult_right_mono) simp_all
  also have "\<dots> = 8 * (A * e) + 2 * (d * e)" by (simp add: algebra_simps)
  also have "d * e \<le> d" using d e mult_left_mono [of e 1 d] by simp
  finally have "\<bar>p + q\<bar> * e \<le> 8 * (A * e) + 2 * d" by simp
  with err [of "p + q"] have r1: "\<bar>r - (p + q)\<bar> \<le> 8 * (A * e) + 3 * d" by (simp add: r_def)
  have "\<bar>r - a\<bar> \<le> 14 * (A * e) + A * d + 5 * d"
    using r1 p1 q1 c1 by linarith
  then show ?thesis
    unfolding r_def p_def q_def s_def A_def e_def d_def by (simp add: algebra_simps)
qed

lemma fraction_bounds:
  assumes "i \<le> n" and "1 \<le> n"
  shows "0 \<le> fl (real i / real n)" and "fl (real i / real n) \<le> 2"
proof -
  have x: "0 \<le> real i / real n" "real i / real n \<le> 1" using assms by simp_all
  show "0 \<le> fl (real i / real n)" by (rule fl_nonneg [OF x(1)])
  have "\<bar>real i / real n\<bar> / 2 ^ 53 \<le> 1 / 2 ^ 53"
    using x by (intro divide_right_mono) simp_all
  with fl_err [of "real i / real n"] tiny_le x
  show "fl (real i / real n) \<le> 2" by (simp add: abs_le_iff) 
qed

lemma round_near_int:
  fixes r :: real
  assumes "\<bar>r - of_int n\<bar> < 1/2"
  shows "round r = n"
  unfolding round_def using assms by (intro floor_unique) linarith+

lemma lerp_self_int:
  assumes t0: "0 \<le> t" and t2: "t \<le> 2" and n: "\<bar>real_of_int n\<bar> \<le> 2 ^ 47"
  shows "round (fl (fl (of_int n * fl (1 - t)) + fl (of_int n * t))) = n"
proof (rule round_near_int)
  let ?a = "real_of_int n"
  have "14 * \<bar>?a\<bar> / 2 ^ 53 \<le> 14 * 2 ^ 47 / 2 ^ 53"
    using n by (intro divide_right_mono mult_left_mono) simp_all
  then have b1: "14 * \<bar>?a\<bar> / 2 ^ 53 \<le> 7 / 32" by simp
  have "(\<bar>?a\<bar> + 5) * 2 powr (- 1075) \<le> 2 ^ 48 * (2::real) powr (- 1075)"
    using n by (intro mult_right_mono) simp_all
  also have "\<dots> = 2 powr (48 + - 1075)" by (simp only: powr_add) simp
  also have "\<dots> \<le> 2 powr (- 3)" by (intro powr_mono) simp_all
  also have "(2::real) powr (- 3) = 1 / 8" by (simp add: powr_minus_divide)
  finally have b2: "(\<bar>?a\<bar> + 5) * 2 powr (- 1075) \<le> 1 / 8" .
  from lerp_self_err [OF t0 t2, of ?a] b1 b2
  show "\<bar>fl (fl (?a * fl (1 - t)) + fl (?a * t)) - ?a\<bar> < 1/2" by linarith
qed

text \<open>
  The rounding of a given real is computed from the unit in the last place of its binade.
  The lemmas below do so for the literals \<open>0.8\<close> and \<open>1 / 5\<close>, for the
  operations of \<open>_lerp\<close> on them, and for the default weights of the ranker and
  their sum.
\<close>

lemma fl_by_ulp:
  assumes u: "u = 2 powr of_int k" and k: "- 1074 \<le> k"
    and lo: "2 ^ 52 * u \<le> \<bar>x\<bar>" and hi: "\<bar>x\<bar> < 2 ^ 53 * u"
  shows "fl x = of_int (round_half_even (x / u)) * u"
proof -
  have upos: "0 < u" by (simp add: u)
  have "0 < 2 ^ 52 * u" using upos by simp
  with lo have "0 < \<bar>x\<bar>" by linarith
  then have x0: "x \<noteq> 0" by simp
  have "(2::real) powr (of_int k + 52) = 2 ^ 52 * u"
    by (simp add: u powr_add)
  with lo have "2 powr (of_int k + 52) \<le> \<bar>x\<bar>" by simp
  then have l1: "of_int k + 52 \<le> log 2 \<bar>x\<bar>"
    using x0 by (simp add: le_log_iff)
  have "(2::real) powr (of_int k + 53) = 2 ^ 53 * u"
    by (simp add: u powr_add)
  with hi have "\<bar>x\<bar> < 2 powr (of_int k + 53)" by simp
  then have l2: "log 2 \<bar>x\<bar> < of_int k + 53"
    using x0 by (simp add: log_less_iff)
  from l1 l2 have "\<lfloor>log 2 \<bar>x\<bar>\<rfloor> = k + 52" by linarith
  then have "ulp_exponent x = k" using k by (simp add: ulp_exponent_def)
  then have "ulp x = u" by (simp add: ulp_def u)
  then show ?thesis using x0 by (simp add: fl_def)
qed


lemma ulp_53: "(1 / 2 ^ 53 :: real) = 2 powr of_int (- 53)"
  by (simp add: powr_minus_divide)


lemma ulp_55: "(1 / 2 ^ 55 :: real) = 2 powr of_int (- 55)"
  by (simp add: powr_minus_divide)

lemma fl_8_10: "fl (8/10) = 7205759403792794 / 2 ^ 53"
proof -
  let ?x = "8/10 :: real"
  have "fl ?x = of_int (round_half_even (?x / (1 / 2 ^ 53))) * (1 / 2 ^ 53)"
    by (rule fl_by_ulp [OF ulp_53]) simp_all
  also have "round_half_even (?x / (1 / 2 ^ 53)) = 7205759403792794"
    by (simp add: round_half_even_def Let_def)
  finally show ?thesis by simp
qed

lemma fl_1_5: "fl (1/5) = 7205759403792794 / 2 ^ 55"
proof -
  let ?x = "1/5 :: real"
  have "fl ?x = of_int (round_half_even (?x / (1 / 2 ^ 55))) * (1 / 2 ^ 55)"
    by (rule fl_by_ulp [OF ulp_55]) simp_all
  also have "round_half_even (?x / (1 / 2 ^ 55)) = 7205759403792794"
    by (simp add: round_half_even_def Let_def)
  finally show ?thesis by simp
qed

lemma fl_one_minus_fifth: "fl (1 - 7205759403792794 / 2 ^ 55) = 7205759403792794 / 2 ^ 53"
proof -
  let ?x = "1 - 7205759403792794 / 2 ^ 55 :: real"
  have "fl ?x = of_int (round_half_even (?x / (1 / 2 ^ 53))) * (1 / 2 ^ 53)"
    by (rule fl_by_ulp [OF ulp_53]) simp_all
  also have "round_half_even (?x / (1 / 2 ^ 53)) = 7205759403792794"
    by (simp add: round_half_even_def Let_def)
  finally show ?thesis by simp
qed

lemma fl_product_left: "fl (7205759403792794 / 2 ^ 53 * (7205759403792794 / 2 ^ 53)) = 5764607523034236 / 2 ^ 53"
proof -
  let ?x = "7205759403792794 / 2 ^ 53 * (7205759403792794 / 2 ^ 53) :: real"
  have "fl ?x = of_int (round_half_even (?x / (1 / 2 ^ 53))) * (1 / 2 ^ 53)"
    by (rule fl_by_ulp [OF ulp_53]) simp_all
  also have "round_half_even (?x / (1 / 2 ^ 53)) = 5764607523034236"
    by (simp add: round_half_even_def Let_def)
  finally show ?thesis by simp
qed

lemma fl_product_right: "fl (7205759403792794 / 2 ^ 53 * (7205759403792794 / 2 ^ 55)) = 5764607523034236 / 2 ^ 55"
proof -
  let ?x = "7205759403792794 / 2 ^ 53 * (7205759403792794 / 2 ^ 55) :: real"
  have "fl ?x = of_int (round_half_even (?x / (1 / 2 ^ 55))) * (1 / 2 ^ 55)"
    by (rule fl_by_ulp [OF ulp_55]) simp_all
  also have "round_half_even (?x / (1 / 2 ^ 55)) = 5764607523034236"
    by (simp add: round_half_even_def Let_def)
  finally show ?thesis by simp
qed

lemma fl_sum_of_products: "fl (5764607523034236 / 2 ^ 53 + 5764607523034236 / 2 ^ 55) = 7205759403792795 / 2 ^ 53"
proof -
  let ?x = "5764607523034236 / 2 ^ 53 + 5764607523034236 / 2 ^ 55 :: real"
  have "fl ?x = of_int (round_half_even (?x / (1 / 2 ^ 53))) * (1 / 2 ^ 53)"
    by (rule fl_by_ulp [OF ulp_53]) simp_all
  also have "round_half_even (?x / (1 / 2 ^ 53)) = 7205759403792795"
    by (simp add: round_half_even_def Let_def)
  finally show ?thesis by simp
qed











section \<open>Validity\<close>

lemma jlt_NaN_right [simp]: "jlt x NaN = False"
  by (cases x) simp_all

lemma jgt_NaN_right [simp]: "jgt x NaN = False"
  by (simp add: jgt_def)

text \<open>
  C7. When the architecture gives no \<open>maxTokens\<close> (the constraints object is absent or
  has no such field), validity does not look at the token cost: a configuration is valid
  exactly when its layer sequence is valid and its confidence threshold is not below
  \<open>minConfidence\<close>, and changing its token cost to any value, absent included, does
  not change its validity. When the architecture gives no \<open>minConfidence\<close>, validity
  is the layer-sequence check and the token bound alone, whatever the confidence
  threshold. An absent bound is not a bound of zero.
\<close>

theorem absent_constraint_is_unconstrained:
  "(constraint_maxTokens arch = None \<longrightarrow>
      isValidConfig config arch =
        (isLayerSequenceValid (layerSequence config) arch \<and>
         \<not> jlt (confidenceThreshold config) (toNumber (constraint_minConfidence arch))) \<and>
      (\<forall>tc. isValidConfig (config\<lparr> tokenCost := tc \<rparr>) arch = isValidConfig config arch)) \<and>
   (constraint_minConfidence arch = None \<longrightarrow>
      isValidConfig config arch =
        (isLayerSequenceValid (layerSequence config) arch \<and>
         \<not> jgt (toNumber (tokenCost config)) (toNumber (constraint_maxTokens arch))) \<and>
      (\<forall>ct. isValidConfig (config\<lparr> confidenceThreshold := ct \<rparr>) arch = isValidConfig config arch))"
proof (intro conjI impI allI)
  assume "constraint_maxTokens arch = None"
  then have t: "toNumber (constraint_maxTokens arch) = NaN" by (simp add: toNumber_def)
  show "isValidConfig config arch =
        (isLayerSequenceValid (layerSequence config) arch \<and>
         \<not> jlt (confidenceThreshold config) (toNumber (constraint_minConfidence arch)))"
    by (simp add: isValidConfig_def t)
  show "isValidConfig (config\<lparr> tokenCost := tc \<rparr>) arch = isValidConfig config arch" for tc
    by (simp add: isValidConfig_def t)
next
  assume "constraint_minConfidence arch = None"
  then have c: "toNumber (constraint_minConfidence arch) = NaN" by (simp add: toNumber_def)
  show "isValidConfig config arch =
        (isLayerSequenceValid (layerSequence config) arch \<and>
         \<not> jgt (toNumber (tokenCost config)) (toNumber (constraint_maxTokens arch)))"
    by (simp add: isValidConfig_def c)
  show "isValidConfig (config\<lparr> confidenceThreshold := ct \<rparr>) arch = isValidConfig config arch" for ct
    by (simp add: isValidConfig_def c)
qed

text \<open>
  With no constraints at all, a configuration of token cost 100 and confidence 0.8 is
  valid, and it stays valid with a token cost of a million and a confidence of zero; under
  bounds of zero it would not be.
\<close>

theorem absent_constraint_is_unconstrained_witness:
  "constraint_maxTokens archFree = None \<and> constraint_minConfidence archFree = None \<and>
   isValidConfig configIO archFree \<and>
   isValidConfig (configIO\<lparr> tokenCost := Some (Finite 1000000) \<rparr>) archFree \<and>
   isValidConfig (configIO\<lparr> confidenceThreshold := Finite 0 \<rparr>) archFree"
proof -
  have a: "constraint_maxTokens archFree = None"
    by (simp add: archFree_def constraint_maxTokens_def)
  have b: "constraint_minConfidence archFree = None"
    by (simp add: archFree_def constraint_minConfidence_def)
  have v: "isValidConfig configIO archFree"
    by (simp add: isValidConfig_def constraint_maxTokens_def constraint_minConfidence_def toNumber_def
        isLayerSequenceValid_def dependenciesSatisfied_def hasRequiredDeps_def dependencies_of_def
        archFree_def configIO_def)
  from absent_constraint_is_unconstrained [of archFree configIO] a b
  have t: "\<forall>tc. isValidConfig (configIO\<lparr> tokenCost := tc \<rparr>) archFree = isValidConfig configIO archFree"
    and c: "\<forall>ct. isValidConfig (configIO\<lparr> confidenceThreshold := ct \<rparr>) archFree =
                 isValidConfig configIO archFree"
    by blast+
  from t v have vt: "isValidConfig (configIO\<lparr> tokenCost := Some (Finite 1000000) \<rparr>) archFree"
    by blast
  from c v have vc: "isValidConfig (configIO\<lparr> confidenceThreshold := Finite 0 \<rparr>) archFree"
    by blast
  from a b v vt vc show ?thesis by blast
qed

section \<open>Blended layer sequences\<close>

lemma pushUnique_distinct: "distinct h \<Longrightarrow> distinct (pushUnique h x)"
  by (simp add: pushUnique_def)

lemma blendStep_distinct: "distinct (fst s) \<Longrightarrow> distinct (fst (blendStep w seqA seqB t i s))"
  by (simp add: blendStep_def Let_def pushUnique_distinct)

lemma fold_blendStep_distinct:
  "distinct (fst s) \<Longrightarrow> distinct (fst (fold (blendStep w seqA seqB t) is s))"
  by (induction "is" arbitrary: s) (simp_all add: blendStep_distinct)

lemma ensureInputOutput_props:
  "''Input'' \<in> set (ensureInputOutput h) \<and> ''Output'' \<in> set (ensureInputOutput h) \<and>
   (distinct h \<longrightarrow> distinct (ensureInputOutput h))"
  by (auto simp: ensureInputOutput_def Let_def)

lemma interpolateSequence_mid:
  "t \<noteq> Finite 0 \<Longrightarrow> t \<noteq> Finite 1 \<Longrightarrow>
   ''Input'' \<in> set (fst (interpolateSequence w seqA seqB t n)) \<and>
   ''Output'' \<in> set (fst (interpolateSequence w seqA seqB t n)) \<and>
   distinct (fst (interpolateSequence w seqA seqB t n))"
  using ensureInputOutput_props fold_blendStep_distinct [of "([], n)"]
  by (simp add: interpolateSequence_def jeq_def Let_def)

text \<open>
  C10. For \<open>0 < t < 1\<close> and every outcome of the random choices, the blended sequence
  contains \<open>Input\<close> and \<open>Output\<close> and has no token twice. So a configuration with such
  a sequence is valid exactly when its dependencies are satisfied and neither constraint
  bound is violated: it cannot fail for a missing \<open>Input\<close> or \<open>Output\<close>.
\<close>

theorem blended_sequence_has_Input_Output:
  assumes "0 < r" and "r < 1"
  shows "(let h = fst (interpolateSequence w seqA seqB (Finite r) n) in
     ''Input'' \<in> set h \<and> ''Output'' \<in> set h \<and> distinct h \<and>
     (\<forall>config arch. layerSequence config = h \<longrightarrow>
        isValidConfig config arch =
          (dependenciesSatisfied h arch \<and>
           \<not> jgt (toNumber (tokenCost config)) (toNumber (constraint_maxTokens arch)) \<and>
           \<not> jlt (confidenceThreshold config) (toNumber (constraint_minConfidence arch)))))"
proof -
  have "Finite r \<noteq> Finite 0" "Finite r \<noteq> Finite 1" using assms by simp_all
  from interpolateSequence_mid [OF this, of w seqA seqB n]
  show ?thesis
    by (auto simp: Let_def isValidConfig_def isLayerSequenceValid_def)
qed

theorem blended_sequence_has_Input_Output_witness:
  "''Input'' \<in> set (fst (interpolateSequence worldHalf [''Perception'', ''Analysis'']
      [''Analysis'', ''Synthesis''] (Finite (1/2)) 0)) \<and>
   ''Output'' \<in> set (fst (interpolateSequence worldHalf [''Perception'', ''Analysis'']
      [''Analysis'', ''Synthesis''] (Finite (1/2)) 0)) \<and>
   distinct (fst (interpolateSequence worldHalf [''Perception'', ''Analysis'']
      [''Analysis'', ''Synthesis''] (Finite (1/2)) 0))"
  using blended_sequence_has_Input_Output [of "1/2" worldHalf "[''Perception'', ''Analysis'']"
      "[''Analysis'', ''Synthesis'']" 0]
  by (simp add: Let_def)

section \<open>The loop of \<open>plan\<close>\<close>

lemma plan_loop_invalid_waypoint:
  "collisionCheckEnabled opts \<Longrightarrow> i + 1 < length wps \<Longrightarrow> \<not> isValidConfig (wps ! i) arch \<Longrightarrow>
   \<not> st_isValid (plan_loop opts arch wps s)"
proof (induction opts arch wps s arbitrary: i rule: plan_loop.induct)
  case (1 opts arch wp1 wp2 rest s)
  show ?case
  proof (cases i)
    case 0
    with "1.prems" show ?thesis by simp
  next
    case (Suc j)
    with "1.prems" "1.IH" [of _ j] show ?thesis
      by (auto simp: Let_def)
  qed
qed simp_all

lemma transitionCosts_Cons2:
  "transitionCosts arch (wp1 # wp2 # rest) =
     computeTransitionCost wp1 wp2 arch # transitionCosts arch (wp2 # rest)"
  by (simp add: transitionCosts_def)

lemma transitionProbabilities_Cons2:
  "transitionProbabilities arch (wp1 # wp2 # rest) =
     computeTransitionProbability wp1 wp2 arch # transitionProbabilities arch (wp2 # rest)"
  by (simp add: transitionProbabilities_def)

lemma plan_loop_cost_exceeded:
  "1 \<le> k \<Longrightarrow> k < length wps \<Longrightarrow>
   jgt (foldl jadd (st_totalCost s) (take k (transitionCosts arch wps))) (maxTransitionCost opts) \<Longrightarrow>
   \<not> st_isValid (plan_loop opts arch wps s)"
proof (induction opts arch wps s arbitrary: k rule: plan_loop.induct)
  case (1 opts arch wp1 wp2 rest s)
  from "1.prems"(1) obtain j where k: "k = Suc j" by (cases k) auto
  show ?case
  proof (cases j)
    case 0
    with k "1.prems" show ?thesis
      by (simp add: transitionCosts_Cons2 Let_def)
  next
    case (Suc j')
    with k "1.prems" "1.IH" [of _ j] show ?thesis
      by (auto simp: transitionCosts_Cons2 Let_def)
  qed
qed simp_all


lemma plan_loop_break:
  "st_isValid s \<Longrightarrow> \<not> st_isValid (plan_loop opts arch wps s) \<Longrightarrow>
   \<exists>k. k < length wps \<and>
     st_totalCost (plan_loop opts arch wps s) =
       foldl jadd (st_totalCost s) (take k (transitionCosts arch wps)) \<and>
     st_cumulativeProbability (plan_loop opts arch wps s) =
       foldl jmul (st_cumulativeProbability s) (take k (transitionProbabilities arch wps)) \<and>
     (\<forall>j<k. \<not> (collisionCheckEnabled opts \<and> \<not> isValidConfig (wps ! j) arch)) \<and>
     (\<forall>j. 1 \<le> j \<and> j < k \<longrightarrow>
        \<not> jgt (foldl jadd (st_totalCost s) (take j (transitionCosts arch wps))) (maxTransitionCost opts)) \<and>
     ((collisionCheckEnabled opts \<and> \<not> isValidConfig (wps ! k) arch \<and> k + 1 < length wps) \<or>
      (1 \<le> k \<and>
       jgt (foldl jadd (st_totalCost s) (take k (transitionCosts arch wps))) (maxTransitionCost opts)))"
proof (induction opts arch wps s rule: plan_loop.induct)
  case (1 opts arch wp1 wp2 rest s)
  let ?wps = "wp1 # wp2 # rest"
  let ?c = "computeTransitionCost wp1 wp2 arch"
  let ?p = "computeTransitionProbability wp1 wp2 arch"
  let ?s' = "s\<lparr> st_totalCost := jadd (st_totalCost s) ?c,
                 st_cumulativeProbability := jmul (st_cumulativeProbability s) ?p \<rparr>"
  show ?case
  proof (cases "collisionCheckEnabled opts \<and> \<not> isValidConfig wp1 arch")
    case True
    then have "plan_loop opts arch ?wps s = s\<lparr> st_isValid := False \<rparr>" by simp
    with True show ?thesis
      by (intro exI [of _ 0]) simp
  next
    case notcol: False
    show ?thesis
    proof (cases "jgt (st_totalCost ?s') (maxTransitionCost opts)")
      case True
      with notcol have "plan_loop opts arch ?wps s = ?s'\<lparr> st_isValid := False \<rparr>"
        by (auto simp: Let_def)
      with True notcol show ?thesis
        by (intro exI [of _ 1]) (simp add: transitionCosts_Cons2 transitionProbabilities_Cons2)
    next
      case notgt: False
      with notcol have eq: "plan_loop opts arch ?wps s = plan_loop opts arch (wp2 # rest) ?s'"
        by (auto simp: Let_def)
      have v: "st_isValid ?s'" using "1.prems"(1) by simp
      have nv: "\<not> st_isValid (plan_loop opts arch (wp2 # rest) ?s')"
        using "1.prems"(2) eq by simp
      from "1.IH" [OF notcol refl notgt v nv]
      obtain k where k: "k < length (wp2 # rest)"
        and kc: "st_totalCost (plan_loop opts arch (wp2 # rest) ?s') =
                 foldl jadd (st_totalCost ?s') (take k (transitionCosts arch (wp2 # rest)))"
        and kp: "st_cumulativeProbability (plan_loop opts arch (wp2 # rest) ?s') =
                 foldl jmul (st_cumulativeProbability ?s') (take k (transitionProbabilities arch (wp2 # rest)))"
        and kv: "\<forall>j<k. \<not> (collisionCheckEnabled opts \<and> \<not> isValidConfig ((wp2 # rest) ! j) arch)"
        and kb: "\<forall>j. 1 \<le> j \<and> j < k \<longrightarrow>
                 \<not> jgt (foldl jadd (st_totalCost ?s') (take j (transitionCosts arch (wp2 # rest))))
                        (maxTransitionCost opts)"
        and ke: "(collisionCheckEnabled opts \<and> \<not> isValidConfig ((wp2 # rest) ! k) arch \<and>
                  k + 1 < length (wp2 # rest)) \<or>
                 (1 \<le> k \<and> jgt (foldl jadd (st_totalCost ?s') (take k (transitionCosts arch (wp2 # rest))))
                        (maxTransitionCost opts))"
        by blast
      have a: "Suc k < length ?wps" using k by simp
      have b: "st_totalCost (plan_loop opts arch ?wps s) =
               foldl jadd (st_totalCost s) (take (Suc k) (transitionCosts arch ?wps))"
        using eq kc by (simp add: transitionCosts_Cons2)
      have c: "st_cumulativeProbability (plan_loop opts arch ?wps s) =
               foldl jmul (st_cumulativeProbability s) (take (Suc k) (transitionProbabilities arch ?wps))"
        using eq kp by (simp add: transitionProbabilities_Cons2)
      have d: "\<forall>j<Suc k. \<not> (collisionCheckEnabled opts \<and> \<not> isValidConfig (?wps ! j) arch)"
      proof (intro allI impI)
        fix j assume "j < Suc k"
        then show "\<not> (collisionCheckEnabled opts \<and> \<not> isValidConfig (?wps ! j) arch)"
          using notcol kv by (cases j) auto
      qed
      have e: "\<forall>j. 1 \<le> j \<and> j < Suc k \<longrightarrow>
               \<not> jgt (foldl jadd (st_totalCost s) (take j (transitionCosts arch ?wps))) (maxTransitionCost opts)"
      proof (intro allI impI)
        fix j assume j: "1 \<le> j \<and> j < Suc k"
        then obtain i where ji: "j = Suc i" by (cases j) auto
        show "\<not> jgt (foldl jadd (st_totalCost s) (take j (transitionCosts arch ?wps))) (maxTransitionCost opts)"
        proof (cases i)
          case 0
          with ji notgt show ?thesis by (simp add: transitionCosts_Cons2)
        next
          case (Suc i')
          with ji j kb have "\<not> jgt (foldl jadd (st_totalCost ?s') (take i (transitionCosts arch (wp2 # rest))))
                        (maxTransitionCost opts)" by simp
          with ji show ?thesis by (simp add: transitionCosts_Cons2)
        qed
      qed
      have f: "(collisionCheckEnabled opts \<and> \<not> isValidConfig (?wps ! Suc k) arch \<and> Suc k + 1 < length ?wps) \<or>
               (1 \<le> Suc k \<and>
                jgt (foldl jadd (st_totalCost s) (take (Suc k) (transitionCosts arch ?wps))) (maxTransitionCost opts))"
        using ke by (auto simp: transitionCosts_Cons2)
      from a b c d e f show ?thesis by blast
    qed
  qed
qed simp_all

lemma fold_interpolateStep_length:
  "length (fst (fold (interpolateStep opts w configA configB) is s)) = length (fst s) + length is"
  by (induction "is" arbitrary: s) (simp_all add: interpolateStep_def Let_def)

lemma interpolate_length:
  "length (fst (interpolate opts w configA configB st)) = interpolationSteps opts + 1"
  by (simp add: interpolate_def fold_interpolateStep_length del: upt_Suc)

lemma fold_interpolateStep_nth:
  "i < length (fst s) + length is \<Longrightarrow>
   (i < length (fst s) \<and> fst (fold (interpolateStep opts w configA configB) is s) ! i = fst s ! i) \<or>
   (length (fst s) \<le> i \<and>
    (\<exists>st'. fst (fold (interpolateStep opts w configA configB) is s) ! i =
            fst (waypointAt opts w configA configB (is ! (i - length (fst s))) st')))"
proof (induction "is" arbitrary: s)
  case Nil
  then show ?case by simp
next
  case (Cons a "is")
  let ?s' = "interpolateStep opts w configA configB a s"
  have fs: "fst ?s' = fst s @ [fst (waypointAt opts w configA configB a (snd s))]"
    by (simp add: interpolateStep_def Let_def)
  have len: "length (fst ?s') = Suc (length (fst s))"
    by (simp add: fs)
  have "i < length (fst ?s') + length is" using Cons.prems len by simp
  from Cons.IH [OF this] show ?case
  proof
    assume h: "i < length (fst ?s') \<and>
      fst (fold (interpolateStep opts w configA configB) is ?s') ! i = fst ?s' ! i"
    show ?thesis
    proof (cases "i < length (fst s)")
      case True
      with h show ?thesis by (simp add: fs nth_append)
    next
      case False
      with h len have "i = length (fst s)" by simp
      with h show ?thesis
        by (auto simp: fs nth_append)
    qed
  next
    assume h: "length (fst ?s') \<le> i \<and>
      (\<exists>st'. fst (fold (interpolateStep opts w configA configB) is ?s') ! i =
              fst (waypointAt opts w configA configB (is ! (i - length (fst ?s'))) st'))"
    then have "length (fst s) < i" using len by simp
    then have "(a # is) ! (i - length (fst s)) = is ! (i - length (fst ?s'))"
      using len by (simp add: nth_Cons split: nat.splits) (metis Suc_diff_Suc diff_Suc_Suc nat.inject)
    with h len show ?thesis by auto
  qed
qed

lemma interpolate_nth:
  assumes "i \<le> interpolationSteps opts"
  shows "\<exists>st'. fst (interpolate opts w configA configB st) ! i = fst (waypointAt opts w configA configB i st')"
proof -
  have "i < length (fst ([]::configuration list, st)) + length [0..<Suc (interpolationSteps opts)]"
    using assms by simp
  from fold_interpolateStep_nth [OF this, of opts w configA configB]
  have "\<exists>st'. fst (fold (interpolateStep opts w configA configB) [0..<Suc (interpolationSteps opts)] ([], st)) ! i =
          fst (waypointAt opts w configA configB ([0..<Suc (interpolationSteps opts)] ! i) st')"
    by simp
  moreover have "[0..<Suc (interpolationSteps opts)] ! i = i"
    using assms by (metis add_0 less_Suc_eq_le nth_upt)
  ultimately show ?thesis by (simp add: interpolate_def del: upt_Suc)
qed

lemma waypointAt_confidenceThreshold:
  "confidenceThreshold (fst (waypointAt opts w configA configB i st)) =
     lerp (confidenceThreshold configA) (confidenceThreshold configB)
       (jdiv (Finite (real i)) (Finite (real (interpolationSteps opts))))"
  by (simp add: waypointAt_def Let_def)

lemma waypointAt_parallelizationFactor:
  "parallelizationFactor (fst (waypointAt opts w configA configB i st)) =
     jround (lerp (parallelizationFactor configA) (parallelizationFactor configB)
       (jdiv (Finite (real i)) (Finite (real (interpolationSteps opts)))))"
  by (simp add: waypointAt_def Let_def)

lemma waypointAt_tokenCost:
  "tokenCost (fst (waypointAt opts w configA configB i st)) =
     Some (jround (lerp (or_default (tokenCost configA) (Finite 0)) (or_default (tokenCost configB) (Finite 0))
       (jdiv (Finite (real i)) (Finite (real (interpolationSteps opts))))))"
  by (simp add: waypointAt_def Let_def)

lemma waypointAt_processingMode:
  "processingMode (fst (waypointAt opts w configA configB i st)) =
     (if jlt (jdiv (Finite (real i)) (Finite (real (interpolationSteps opts)))) (Finite (1/2))
      then processingMode configA else processingMode configB)"
  by (simp add: waypointAt_def Let_def)

lemma waypointAt_layerSequence:
  "layerSequence (fst (waypointAt opts w configA configB i st)) =
     fst (interpolateSequence w (layerSequence configA) (layerSequence configB)
       (jdiv (Finite (real i)) (Finite (real (interpolationSteps opts)))) (randomCalls st))"
  by (simp add: waypointAt_def Let_def)

lemma lerp_Finite:
  "lerp (Finite a) (Finite b) (Finite t) = Finite (fl (fl (a * fl (1 - t)) + fl (b * t)))"
  by (simp add: lerp_def jsub_def)

lemma configIO_confidence:
  "confidenceThreshold configIO = Finite (7205759403792794 / 2 ^ 53)"
  unfolding configIO_def lit_def configuration.select_convs fl_8_10 ..

lemma lerp_zero:
  "lerp (Finite a) (Finite b) (Finite 0) = Finite (fl a)"
  by (simp add: lerp_def jsub_def)

lemma lerp_one:
  "lerp (Finite a) (Finite b) (Finite 1) = Finite (fl b)"
  by (simp add: lerp_def jsub_def)

lemma plan_isValid:
  "isValid (await (fst (plan opts w configA configB arch st))) =
     st_isValid (plan_loop opts arch (fst (interpolate opts w configA configB st)) plan_initial)"
  by (simp add: plan_def Let_def)

lemma plan_cost:
  "cost (await (fst (plan opts w configA configB arch st))) =
     st_totalCost (plan_loop opts arch (fst (interpolate opts w configA configB st)) plan_initial)"
  by (simp add: plan_def Let_def)

lemma plan_probability:
  "probability (await (fst (plan opts w configA configB arch st))) =
     st_cumulativeProbability (plan_loop opts arch (fst (interpolate opts w configA configB st)) plan_initial)"
  by (simp add: plan_def Let_def)



lemma one_step_waypoints:
  assumes "interpolationSteps opts = 1"
  shows "fst (interpolate opts w configA configB st) =
     [fst (waypointAt opts w configA configB 0 st),
      fst (waypointAt opts w configA configB (Suc 0) (snd (waypointAt opts w configA configB 0 st)))]"
  by (simp add: interpolate_def assms interpolateStep_def Let_def)

lemma one_step_first:
  assumes "interpolationSteps opts = 1"
  shows "layerSequence (fst (waypointAt opts w configA configB 0 st)) = layerSequence configA"
  by (simp add: waypointAt_layerSequence assms interpolateSequence_def jeq_def)

lemma one_step_last:
  assumes "interpolationSteps opts = 1"
  shows "layerSequence (fst (waypointAt opts w configA configB (Suc 0) st)) = layerSequence configB"
  by (simp add: waypointAt_layerSequence assms interpolateSequence_def jeq_def)

lemma valid_free: "isValidConfig c archFree = (''Input'' \<in> set (layerSequence c) \<and> ''Output'' \<in> set (layerSequence c) )"
  by (auto simp: isValidConfig_def isLayerSequenceValid_def dependenciesSatisfied_def hasRequiredDeps_def
      dependencies_of_def archFree_def toNumber_def constraint_maxTokens_def constraint_minConfidence_def list_all_iff)

lemma one_step_cost:
  assumes s: "interpolationSteps opts = 1"
    and l: "length (layerSequence configA) = length (layerSequence configB)"
    and m: "processingMode configA = processingMode configB"
    and ca: "confidenceThreshold configA = Finite c"
    and cb: "confidenceThreshold configB = Finite c"
  shows "computeTransitionCost (fst (waypointAt opts w configA configB 0 st))
           (fst (waypointAt opts w configA configB (Suc 0) st')) arch = Finite 30"
proof -
  let ?wp0 = "fst (waypointAt opts w configA configB 0 st)"
  let ?wp1 = "fst (waypointAt opts w configA configB (Suc 0) st')"
  have l0: "layerSequence ?wp0 = layerSequence configA" by (rule one_step_first [OF s])
  have l1: "layerSequence ?wp1 = layerSequence configB" by (rule one_step_last [OF s])
  have c0: "confidenceThreshold ?wp0 = Finite (fl c)"
    by (simp add: waypointAt_confidenceThreshold s ca cb lerp_zero)
  have c1: "confidenceThreshold ?wp1 = Finite (fl c)"
    by (simp add: waypointAt_confidenceThreshold s ca cb lerp_one)
  have m0: "processingMode ?wp0 = processingMode configA"
    by (simp add: waypointAt_processingMode s)
  have m1: "processingMode ?wp1 = processingMode configA"
    by (simp add: waypointAt_processingMode s m)
  show ?thesis
    unfolding computeTransitionCost_def Let_def l0 l1 c0 c1 m0 m1
    by (simp add: lengthDiff_def jsub_def l)
qed

lemma tight_plan_waypoints:
  "fst (interpolate tightPlanner worldHalf configIO configIO noCalls) =
     [fst (waypointAt tightPlanner worldHalf configIO configIO 0 noCalls),
      fst (waypointAt tightPlanner worldHalf configIO configIO (Suc 0)
             (snd (waypointAt tightPlanner worldHalf configIO configIO 0 noCalls)))]"
  by (rule one_step_waypoints) (simp add: tightPlanner_def newLocalPlanner_def)

lemma tight_plan_first_cost:
  "accumulatedCost archFree (fst (interpolate tightPlanner worldHalf configIO configIO noCalls)) 1 = Finite 30"
proof -
  have s: "interpolationSteps tightPlanner = 1"
    by (simp add: tightPlanner_def newLocalPlanner_def)
  have "computeTransitionCost (fst (waypointAt tightPlanner worldHalf configIO configIO 0 noCalls))
           (fst (waypointAt tightPlanner worldHalf configIO configIO (Suc 0)
             (snd (waypointAt tightPlanner worldHalf configIO configIO 0 noCalls)))) archFree = Finite 30"
    by (rule one_step_cost [OF s, of _ _ "fl (8/10)"]) (simp_all add: configIO_def lit_def)
  then show ?thesis
    unfolding tight_plan_waypoints accumulatedCost_def
    by (simp add: transitionCosts_def)
qed

lemma tight_plan_first_valid:
  "isValidConfig (fst (interpolate tightPlanner worldHalf configIO configIO noCalls) ! 0) archFree"
proof -
  have s: "interpolationSteps tightPlanner = 1"
    by (simp add: tightPlanner_def newLocalPlanner_def)
  have "layerSequence (fst (waypointAt tightPlanner worldHalf configIO configIO 0 noCalls)) =
        [''Input'', ''Output'']"
    by (subst one_step_first [OF s]) (simp add: configIO_def)
  then show ?thesis
    unfolding tight_plan_waypoints by (simp add: valid_free)
qed





lemma plan_loop_break_initial:
  assumes "\<not> st_isValid (plan_loop opts arch wps plan_initial)"
  shows "\<exists>k. k < length wps \<and>
     st_totalCost (plan_loop opts arch wps plan_initial) = accumulatedCost arch wps k \<and>
     st_cumulativeProbability (plan_loop opts arch wps plan_initial) = accumulatedProbability arch wps k \<and>
     (\<forall>j<k. \<not> (collisionCheckEnabled opts \<and> \<not> isValidConfig (wps ! j) arch)) \<and>
     (\<forall>j. 1 \<le> j \<and> j < k \<longrightarrow> \<not> jgt (accumulatedCost arch wps j) (maxTransitionCost opts)) \<and>
     ((collisionCheckEnabled opts \<and> \<not> isValidConfig (wps ! k) arch \<and> k + 1 < length wps) \<or>
      (1 \<le> k \<and> jgt (accumulatedCost arch wps k) (maxTransitionCost opts)))"
proof -
  have v0: "st_isValid plan_initial" by (simp add: plan_initial_def)
  have c0: "st_totalCost plan_initial = Finite 0" by (simp add: plan_initial_def)
  have p0: "st_cumulativeProbability plan_initial = Finite 1" by (simp add: plan_initial_def)
  show ?thesis
    using plan_loop_break [OF v0 assms]
    unfolding accumulatedCost_def accumulatedProbability_def c0 p0 .
qed

text \<open>
  C9. When \<open>plan\<close> returns \<open>isValid = false\<close>, the loop broke after accumulating
  exactly \<open>k\<close> pairs, for the \<open>k\<close> fixed by the loop: the waypoints before index
  \<open>k\<close> passed the collision check, the cost did not exceed the limit before the
  \<open>k\<close>-th pair, and either waypoint \<open>k\<close> is invalid or the cost after \<open>k\<close> pairs
  exceeds the limit. The returned cost is the sum over those \<open>k\<close> pairs and the
  returned probability their product; they are 0 and 1 when the first waypoint is invalid.
\<close>

theorem invalid_plan_keeps_partial_cost:
  assumes "\<not> isValid (await (fst (plan opts w configA configB arch st)))"
  shows "(let wps = fst (interpolate opts w configA configB st);
              r = await (fst (plan opts w configA configB arch st)) in
          (\<exists>k. k < length wps \<and>
             cost r = accumulatedCost arch wps k \<and>
             probability r = accumulatedProbability arch wps k \<and>
             (\<forall>j<k. \<not> (collisionCheckEnabled opts \<and> \<not> isValidConfig (wps ! j) arch)) \<and>
             (\<forall>j. 1 \<le> j \<and> j < k \<longrightarrow> \<not> jgt (accumulatedCost arch wps j) (maxTransitionCost opts)) \<and>
             ((collisionCheckEnabled opts \<and> \<not> isValidConfig (wps ! k) arch \<and> k + 1 < length wps) \<or>
              (1 \<le> k \<and> jgt (accumulatedCost arch wps k) (maxTransitionCost opts)))) \<and>
          (collisionCheckEnabled opts \<and> \<not> isValidConfig (wps ! 0) arch \<longrightarrow>
             cost r = Finite 0 \<and> probability r = Finite 1))"
proof -
  let ?wps = "fst (interpolate opts w configA configB st)"
  let ?s = "plan_loop opts arch ?wps plan_initial"
  have nv: "\<not> st_isValid ?s" using assms by (simp add: plan_isValid)
  note ex = plan_loop_break_initial [OF nv]
  have first: "collisionCheckEnabled opts \<and> \<not> isValidConfig (?wps ! 0) arch \<longrightarrow>
               st_totalCost ?s = Finite 0 \<and> st_cumulativeProbability ?s = Finite 1"
  proof
    assume a: "collisionCheckEnabled opts \<and> \<not> isValidConfig (?wps ! 0) arch"
    from ex obtain k where kc: "st_totalCost ?s = accumulatedCost arch ?wps k"
      and kp: "st_cumulativeProbability ?s = accumulatedProbability arch ?wps k"
      and kv: "\<forall>j<k. \<not> (collisionCheckEnabled opts \<and> \<not> isValidConfig (?wps ! j) arch)"
      by blast
    have "k = 0"
    proof (rule ccontr)
      assume "k \<noteq> 0"
      then have "0 < k" by simp
      with kv a show False by blast
    qed
    with kc kp show "st_totalCost ?s = Finite 0 \<and> st_cumulativeProbability ?s = Finite 1"
      by (simp add: accumulatedCost_def accumulatedProbability_def)
  qed
  show ?thesis
    unfolding Let_def plan_cost plan_probability
    by (rule conjI [OF ex first])
qed

lemma first_waypoint:
  assumes "1 \<le> interpolationSteps opts"
  shows "\<exists>st'. fst (interpolate opts w configA configB st) ! 0 = fst (waypointAt opts w configA configB 0 st') \<and>
          layerSequence (fst (interpolate opts w configA configB st) ! 0) = layerSequence configA"
proof -
  from interpolate_nth [of 0 opts w configA configB st]
  obtain st' where wp: "fst (interpolate opts w configA configB st) ! 0 = fst (waypointAt opts w configA configB 0 st')"
    by auto
  have "jdiv (Finite (real (0::nat))) (Finite (real (interpolationSteps opts))) = Finite 0"
    using assms by simp
  then have "layerSequence (fst (waypointAt opts w configA configB 0 st')) = layerSequence configA"
    by (simp add: waypointAt_layerSequence interpolateSequence_def jeq_def)
  with wp show ?thesis by auto
qed

lemma missing_output_invalid:
  "''Output'' \<notin> set (layerSequence c) \<Longrightarrow> \<not> isValidConfig c arch"
  by (simp add: isValidConfig_def isLayerSequenceValid_def)

lemma first_waypoint_without_output_invalid:
  "\<not> isValidConfig (fst (interpolate defaultPlanner worldHalf configNoOutput configIO noCalls) ! 0) archFree"
proof -
  have "1 \<le> interpolationSteps defaultPlanner"
    by (simp add: defaultPlanner_def newLocalPlanner_def)
  from first_waypoint [OF this, of worldHalf configNoOutput configIO noCalls]
  have "layerSequence (fst (interpolate defaultPlanner worldHalf configNoOutput configIO noCalls) ! 0) =
        layerSequence configNoOutput" by blast
  then show ?thesis
    by (intro missing_output_invalid) (simp add: configNoOutput_def configIO_def)
qed

text \<open>
  A first waypoint without \<open>Output\<close>: the plan is invalid with cost 0 and probability
  1. Two valid waypoints under a cost limit of 20: the plan is invalid and its cost is
  that of the one pair accumulated, 30.
\<close>

theorem invalid_plan_keeps_partial_cost_witness:
  "\<not> isValid (await (fst (plan defaultPlanner worldHalf configNoOutput configIO archFree noCalls))) \<and>
   cost (await (fst (plan defaultPlanner worldHalf configNoOutput configIO archFree noCalls))) = Finite 0 \<and>
   probability (await (fst (plan defaultPlanner worldHalf configNoOutput configIO archFree noCalls))) = Finite 1 \<and>
   \<not> isValid (await (fst (plan tightPlanner worldHalf configIO configIO archFree noCalls))) \<and>
   cost (await (fst (plan tightPlanner worldHalf configIO configIO archFree noCalls))) = Finite 30"
proof -
  have c: "collisionCheckEnabled defaultPlanner"
    by (simp add: defaultPlanner_def newLocalPlanner_def)
  have l: "0 + 1 < length (fst (interpolate defaultPlanner worldHalf configNoOutput configIO noCalls))"
    by (simp add: interpolate_length defaultPlanner_def newLocalPlanner_def)
  have nv: "\<not> isValid (await (fst (plan defaultPlanner worldHalf configNoOutput configIO archFree noCalls)))"
    using plan_loop_invalid_waypoint [OF c l first_waypoint_without_output_invalid, of plan_initial]
    by (simp add: plan_isValid)
  from invalid_plan_keeps_partial_cost [OF nv] c first_waypoint_without_output_invalid nv
  have part1: "\<not> isValid (await (fst (plan defaultPlanner worldHalf configNoOutput configIO archFree noCalls))) \<and>
   cost (await (fst (plan defaultPlanner worldHalf configNoOutput configIO archFree noCalls))) = Finite 0 \<and>
   probability (await (fst (plan defaultPlanner worldHalf configNoOutput configIO archFree noCalls))) = Finite 1"
    by (simp add: Let_def)
  let ?wps = "fst (interpolate tightPlanner worldHalf configIO configIO noCalls)"
  let ?r = "await (fst (plan tightPlanner worldHalf configIO configIO archFree noCalls))"
  have len: "length ?wps = 2"
    by (simp add: interpolate_length tightPlanner_def newLocalPlanner_def)
  have over: "jgt (accumulatedCost archFree ?wps 1) (maxTransitionCost tightPlanner)"
    unfolding tight_plan_first_cost by (simp add: tightPlanner_def newLocalPlanner_def jgt_def)
  have nv2: "\<not> isValid ?r"
    using plan_loop_cost_exceeded [of 1 ?wps plan_initial archFree tightPlanner] len over
    by (simp add: plan_isValid accumulatedCost_def plan_initial_def)
  from invalid_plan_keeps_partial_cost [OF nv2]
  obtain k where k: "k < length ?wps"
    and kc: "cost ?r = accumulatedCost archFree ?wps k"
    and ke: "(collisionCheckEnabled tightPlanner \<and> \<not> isValidConfig (?wps ! k) archFree \<and> k + 1 < length ?wps) \<or>
             (1 \<le> k \<and> jgt (accumulatedCost archFree ?wps k) (maxTransitionCost tightPlanner))"
    unfolding Let_def by blast
  have "k = 1"
  proof (rule ccontr)
    assume "k \<noteq> 1"
    with k len have k0: "k = 0" by simp
    with ke tight_plan_first_valid show False by simp
  qed
  with kc tight_plan_first_cost have "cost ?r = Finite 30" by simp
  with part1 nv2 show ?thesis by blast
qed

lemma round_lerp_integer:
  assumes "0 \<le> t" and "t \<le> 2" and "isInteger a" and "\<bar>a\<bar> \<le> 2 ^ 47"
  shows "jround (lerp (Finite a) (Finite a) (Finite t)) = Finite a"
proof -
  from assms(3) have a: "a = of_int \<lfloor>a\<rfloor>" by (simp add: isInteger_def)
  have "\<bar>real_of_int \<lfloor>a\<rfloor>\<bar> \<le> 2 ^ 47" using assms(4) a by simp
  from lerp_self_int [OF assms(1,2) this]
  have "round (fl (fl (a * fl (1 - t)) + fl (a * t))) = \<lfloor>a\<rfloor>" using a by simp
  then show ?thesis
    unfolding lerp_Finite using a by simp
qed

text \<open>
  C3, as amended. There are \<open>interpolationSteps + 1\<close> waypoints. The confidence
  threshold of waypoint \<open>i\<close> is \<open>_lerp\<close> at \<open>t = i / steps\<close>, each of its
  operations rounded as double arithmetic rounds; the parallelization factor and the
  token cost are that interpolation rounded to the nearest integer, the token cost as
  well as the parallelization factor. From a configuration with finite fields to itself,
  with at least one step: every waypoint has the configuration's own parallelization
  factor when that is an integer of magnitude at most \<open>2 ^ 47\<close>, and likewise
  its own token cost (which counts as 0 when absent); every waypoint has the
  configuration's own confidence threshold up to the rounding of the four operations of
  \<open>_lerp\<close>, a relative error of at most \<open>14 / 2 ^ 53\<close>; and the first and the
  last waypoint have the configuration's own confidence threshold exactly, and its
  parallelization factor and token cost rounded to the nearest integer, when these
  fields are doubles.
\<close>

theorem interpolation_scalar_fields:
  assumes "i \<le> interpolationSteps opts"
  shows "(let wps = fst (interpolate opts w configA configB st);
              t = jdiv (Finite (real i)) (Finite (real (interpolationSteps opts))) in
          length wps = interpolationSteps opts + 1 \<and>
          confidenceThreshold (wps ! i) = lerp (confidenceThreshold configA) (confidenceThreshold configB) t \<and>
          parallelizationFactor (wps ! i) =
            jround (lerp (parallelizationFactor configA) (parallelizationFactor configB) t) \<and>
          tokenCost (wps ! i) =
            Some (jround (lerp (or_default (tokenCost configA) (Finite 0))
                               (or_default (tokenCost configB) (Finite 0)) t)) \<and>
          (1 \<le> interpolationSteps opts \<and> configB = configA \<and>
           confidenceThreshold configA = Finite c \<and> parallelizationFactor configA = Finite p \<and>
           or_default (tokenCost configA) (Finite 0) = Finite tc \<longrightarrow>
             (isInteger p \<and> \<bar>p\<bar> \<le> 2 ^ 47 \<longrightarrow> parallelizationFactor (wps ! i) = Finite p) \<and>
             (isInteger tc \<and> \<bar>tc\<bar> \<le> 2 ^ 47 \<longrightarrow> tokenCost (wps ! i) = Some (Finite tc)) \<and>
             (\<exists>r. confidenceThreshold (wps ! i) = Finite r \<and>
                  \<bar>r - c\<bar> \<le> 14 * \<bar>c\<bar> / 2 ^ 53 + (\<bar>c\<bar> + 5) * 2 powr (- 1075)) \<and>
             ((i = 0 \<or> i = interpolationSteps opts) \<and> isDouble c \<and> isDouble p \<and> isDouble tc \<longrightarrow>
                confidenceThreshold (wps ! i) = Finite c \<and>
                parallelizationFactor (wps ! i) = Finite (of_int (round p)) \<and>
                tokenCost (wps ! i) = Some (Finite (of_int (round tc))))))"
proof -
  let ?wps = "fst (interpolate opts w configA configB st)"
  let ?t = "jdiv (Finite (real i)) (Finite (real (interpolationSteps opts)))"
  let ?x = "fl (real i / real (interpolationSteps opts))"
  from interpolate_nth [OF assms, of w configA configB st]
  obtain st' where wp: "?wps ! i = fst (waypointAt opts w configA configB i st')" by blast
  have g1: "length ?wps = interpolationSteps opts + 1" by (rule interpolate_length)
  have g2: "confidenceThreshold (?wps ! i) = lerp (confidenceThreshold configA) (confidenceThreshold configB) ?t"
    unfolding wp by (rule waypointAt_confidenceThreshold)
  have g3: "parallelizationFactor (?wps ! i) =
            jround (lerp (parallelizationFactor configA) (parallelizationFactor configB) ?t)"
    unfolding wp by (rule waypointAt_parallelizationFactor)
  have g4: "tokenCost (?wps ! i) =
            Some (jround (lerp (or_default (tokenCost configA) (Finite 0))
                               (or_default (tokenCost configB) (Finite 0)) ?t))"
    unfolding wp by (rule waypointAt_tokenCost)
  have g5: "1 \<le> interpolationSteps opts \<and> configB = configA \<and>
           confidenceThreshold configA = Finite c \<and> parallelizationFactor configA = Finite p \<and>
           or_default (tokenCost configA) (Finite 0) = Finite tc \<longrightarrow>
             (isInteger p \<and> \<bar>p\<bar> \<le> 2 ^ 47 \<longrightarrow> parallelizationFactor (?wps ! i) = Finite p) \<and>
             (isInteger tc \<and> \<bar>tc\<bar> \<le> 2 ^ 47 \<longrightarrow> tokenCost (?wps ! i) = Some (Finite tc)) \<and>
             (\<exists>r. confidenceThreshold (?wps ! i) = Finite r \<and>
                  \<bar>r - c\<bar> \<le> 14 * \<bar>c\<bar> / 2 ^ 53 + (\<bar>c\<bar> + 5) * 2 powr (- 1075)) \<and>
             ((i = 0 \<or> i = interpolationSteps opts) \<and> isDouble c \<and> isDouble p \<and> isDouble tc \<longrightarrow>
                confidenceThreshold (?wps ! i) = Finite c \<and>
                parallelizationFactor (?wps ! i) = Finite (of_int (round p)) \<and>
                tokenCost (?wps ! i) = Some (Finite (of_int (round tc))))"
  proof
    assume h: "1 \<le> interpolationSteps opts \<and> configB = configA \<and>
           confidenceThreshold configA = Finite c \<and> parallelizationFactor configA = Finite p \<and>
           or_default (tokenCost configA) (Finite 0) = Finite tc"
    then have s: "1 \<le> interpolationSteps opts" and b: "configB = configA" by blast+
    from h have f: "confidenceThreshold configA = Finite c" "parallelizationFactor configA = Finite p"
      "or_default (tokenCost configA) (Finite 0) = Finite tc" by blast+
    from s have t: "?t = Finite ?x" by simp
    note x = fraction_bounds [OF assms s]
    have cf: "confidenceThreshold (?wps ! i) = lerp (Finite c) (Finite c) (Finite ?x)"
      unfolding g2 unfolding t b unfolding f ..
    have pf: "parallelizationFactor (?wps ! i) = jround (lerp (Finite p) (Finite p) (Finite ?x))"
      unfolding g3 unfolding t b unfolding f ..
    have tf: "tokenCost (?wps ! i) = Some (jround (lerp (Finite tc) (Finite tc) (Finite ?x)))"
      unfolding g4 unfolding t b unfolding f ..
    have k1: "isInteger p \<and> \<bar>p\<bar> \<le> 2 ^ 47 \<longrightarrow> parallelizationFactor (?wps ! i) = Finite p"
      unfolding pf using round_lerp_integer [OF x, of p] by blast
    have k2: "isInteger tc \<and> \<bar>tc\<bar> \<le> 2 ^ 47 \<longrightarrow> tokenCost (?wps ! i) = Some (Finite tc)"
      unfolding tf using round_lerp_integer [OF x, of tc] by blast
    have k3: "\<exists>r. confidenceThreshold (?wps ! i) = Finite r \<and>
                  \<bar>r - c\<bar> \<le> 14 * \<bar>c\<bar> / 2 ^ 53 + (\<bar>c\<bar> + 5) * 2 powr (- 1075)"
      unfolding cf lerp_Finite using lerp_self_err [OF x, of c] by blast
    have k4: "(i = 0 \<or> i = interpolationSteps opts) \<and> isDouble c \<and> isDouble p \<and> isDouble tc \<longrightarrow>
                confidenceThreshold (?wps ! i) = Finite c \<and>
                parallelizationFactor (?wps ! i) = Finite (of_int (round p)) \<and>
                tokenCost (?wps ! i) = Some (Finite (of_int (round tc)))"
    proof
      assume e: "(i = 0 \<or> i = interpolationSteps opts) \<and> isDouble c \<and> isDouble p \<and> isDouble tc"
      then have d: "fl c = c" "fl p = p" "fl tc = tc" by (simp_all add: isDouble_def)
      from e have "i = 0 \<or> i = interpolationSteps opts" by blast
      then show "confidenceThreshold (?wps ! i) = Finite c \<and>
          parallelizationFactor (?wps ! i) = Finite (of_int (round p)) \<and>
          tokenCost (?wps ! i) = Some (Finite (of_int (round tc)))"
      proof (rule disjE)
        assume "i = 0"
        then have z: "?x = 0" by simp
        show ?thesis
          unfolding cf pf tf z lerp_zero d by simp
      next
        assume "i = interpolationSteps opts"
        with s have z: "?x = 1" by simp
        show ?thesis
          unfolding cf pf tf z lerp_one d by simp
      qed
    qed
    show "(isInteger p \<and> \<bar>p\<bar> \<le> 2 ^ 47 \<longrightarrow> parallelizationFactor (?wps ! i) = Finite p) \<and>
             (isInteger tc \<and> \<bar>tc\<bar> \<le> 2 ^ 47 \<longrightarrow> tokenCost (?wps ! i) = Some (Finite tc)) \<and>
             (\<exists>r. confidenceThreshold (?wps ! i) = Finite r \<and>
                  \<bar>r - c\<bar> \<le> 14 * \<bar>c\<bar> / 2 ^ 53 + (\<bar>c\<bar> + 5) * 2 powr (- 1075)) \<and>
             ((i = 0 \<or> i = interpolationSteps opts) \<and> isDouble c \<and> isDouble p \<and> isDouble tc \<longrightarrow>
                confidenceThreshold (?wps ! i) = Finite c \<and>
                parallelizationFactor (?wps ! i) = Finite (of_int (round p)) \<and>
                tokenCost (?wps ! i) = Some (Finite (of_int (round tc))))"
      by (intro conjI k1 k2 k3 k4)
  qed
  show ?thesis
    unfolding Let_def by (intro conjI g1 g2 g3 g4 g5)
qed

text \<open>
  The default planner from a configuration of confidence 0.8, parallelization factor 2
  and token cost 100 to itself: six waypoints; the fourth has the parallelization factor
  2, the token cost 100 and a confidence within the bound of 0.8; the last has the
  confidence 0.8 itself.
\<close>

theorem interpolation_scalar_fields_witness:
  "length (fst (interpolate defaultPlanner worldHalf configIO configIO noCalls)) = 6 \<and>
   parallelizationFactor (fst (interpolate defaultPlanner worldHalf configIO configIO noCalls) ! 3) = Finite 2 \<and>
   tokenCost (fst (interpolate defaultPlanner worldHalf configIO configIO noCalls) ! 3) = Some (Finite 100) \<and>
   (\<exists>r. confidenceThreshold (fst (interpolate defaultPlanner worldHalf configIO configIO noCalls) ! 3) = Finite r \<and>
        \<bar>r - fl (8/10)\<bar> \<le> 14 * \<bar>fl (8/10)\<bar> / 2 ^ 53 + (\<bar>fl (8/10)\<bar> + 5) * 2 powr (- 1075)) \<and>
   confidenceThreshold (fst (interpolate defaultPlanner worldHalf configIO configIO noCalls) ! 5) = lit (8/10) \<and>
   parallelizationFactor (fst (interpolate defaultPlanner worldHalf configIO configIO noCalls) ! 5) = Finite 2 \<and>
   tokenCost (fst (interpolate defaultPlanner worldHalf configIO configIO noCalls) ! 5) = Some (Finite 100)"
proof -
  let ?wps = "fst (interpolate defaultPlanner worldHalf configIO configIO noCalls)"
  have s: "interpolationSteps defaultPlanner = 5"
    by (simp add: defaultPlanner_def newLocalPlanner_def)
  have i3: "3 \<le> interpolationSteps defaultPlanner" and i5: "5 \<le> interpolationSteps defaultPlanner"
    by (simp_all add: s)
  have h: "1 \<le> interpolationSteps defaultPlanner \<and> configIO = configIO \<and>
           confidenceThreshold configIO = Finite (fl (8/10)) \<and> parallelizationFactor configIO = Finite 2 \<and>
           or_default (tokenCost configIO) (Finite 0) = Finite 100"
    by (simp add: s configIO_def or_default_def lit_def)
  have n: "isInteger 2 \<and> \<bar>2::real\<bar> \<le> 2 ^ 47" "isInteger 100 \<and> \<bar>100::real\<bar> \<le> 2 ^ 47"
    by (simp_all add: isInteger_def)
  have e: "(5 = (0::nat) \<or> 5 = interpolationSteps defaultPlanner) \<and>
           isDouble (fl (8/10)) \<and> isDouble 2 \<and> isDouble 100"
    using fl_int [of 2] fl_int [of 100] by (simp add: s isDouble_def)
  note r3 = interpolation_scalar_fields [OF i3, of worldHalf configIO configIO noCalls "fl (8/10)" 2 100,
      unfolded Let_def]
  note r5 = interpolation_scalar_fields [OF i5, of worldHalf configIO configIO noCalls "fl (8/10)" 2 100,
      unfolded Let_def]
  note a3 = r3 [THEN conjunct2, THEN conjunct2, THEN conjunct2, THEN conjunct2, THEN mp, OF h]
  note a5 = r5 [THEN conjunct2, THEN conjunct2, THEN conjunct2, THEN conjunct2, THEN mp, OF h]
  from r3 have g1: "length ?wps = 6" by (simp add: s)
  note g2 = a3 [THEN conjunct1, THEN mp, OF n(1)]
  note g3 = a3 [THEN conjunct2, THEN conjunct1, THEN mp, OF n(2)]
  note g4 = a3 [THEN conjunct2, THEN conjunct2, THEN conjunct1]
  note g5 = a5 [THEN conjunct2, THEN conjunct2, THEN conjunct2, THEN mp, OF e]
  from g5 have g6: "confidenceThreshold (?wps ! 5) = lit (8/10) \<and>
      parallelizationFactor (?wps ! 5) = Finite 2 \<and> tokenCost (?wps ! 5) = Some (Finite 100)"
    by (simp add: lit_def)
  show ?thesis
    by (intro conjI g1 g2 g3 g4 g6 [THEN conjunct1] g6 [THEN conjunct2, THEN conjunct1]
        g6 [THEN conjunct2, THEN conjunct2])
qed

text \<open>
  C3 as stated fails: from a configuration of token cost 1.5 to itself, the first
  waypoint has token cost 2.
\<close>

theorem token_cost_is_rounded_counterexample:
  "tokenCost (fst (interpolate defaultPlanner worldHalf configHalfToken configHalfToken noCalls) ! 0) = Some (Finite 2) \<and>
   tokenCost configHalfToken = Some (Finite (3/2))"
proof -
  have "0 \<le> interpolationSteps defaultPlanner" by simp
  from interpolate_nth [OF this, of worldHalf configHalfToken configHalfToken noCalls]
  obtain st' where wp: "fst (interpolate defaultPlanner worldHalf configHalfToken configHalfToken noCalls) ! 0 =
      fst (waypointAt defaultPlanner worldHalf configHalfToken configHalfToken 0 st')" by blast
  have t: "tokenCost configHalfToken = Some (Finite (3/2))"
    by (simp add: configHalfToken_def)
  have "tokenCost (fst (waypointAt defaultPlanner worldHalf configHalfToken configHalfToken 0 st')) =
        Some (jround (lerp (Finite (3/2)) (Finite (3/2)) (Finite 0)))"
    by (simp add: waypointAt_tokenCost defaultPlanner_def newLocalPlanner_def t or_default_def)
  also have "\<dots> = Some (Finite 2)"
    unfolding lerp_zero fl_3_2 by (simp add: round_def)
  finally show ?thesis
    unfolding wp using t by simp
qed

text \<open>
  Between the first and the last waypoint the interpolation of a value with itself can
  leave the value: with the default five steps, the second waypoint from a configuration
  of confidence \<open>0.8\<close> to itself has the confidence \<open>0.8000000000000002\<close>,
  the next double above.
\<close>

lemma confidence_moves_between_endpoints:
  "confidenceThreshold (fst (interpolate defaultPlanner worldHalf configIO configIO noCalls) ! 1) =
     Finite (7205759403792795 / 2 ^ 53) \<and>
   confidenceThreshold configIO = Finite (7205759403792794 / 2 ^ 53)"
proof -
  have s: "interpolationSteps defaultPlanner = 5"
    by (simp add: defaultPlanner_def newLocalPlanner_def)
  have "1 \<le> interpolationSteps defaultPlanner" by (simp add: s)
  from interpolate_nth [OF this, of worldHalf configIO configIO noCalls]
  obtain st' where wp: "fst (interpolate defaultPlanner worldHalf configIO configIO noCalls) ! 1 =
      fst (waypointAt defaultPlanner worldHalf configIO configIO 1 st')" by blast
  note c = configIO_confidence
  have "jdiv (Finite (real 1)) (Finite (real 5)) = Finite (fl (1/5))" by simp
  then have t: "jdiv (Finite (real 1)) (Finite (real 5)) = Finite (7205759403792794 / 2 ^ 55)"
    unfolding fl_1_5 .
  have "confidenceThreshold (fst (waypointAt defaultPlanner worldHalf configIO configIO 1 st')) =
        lerp (Finite (7205759403792794 / 2 ^ 53)) (Finite (7205759403792794 / 2 ^ 53))
          (Finite (7205759403792794 / 2 ^ 55))"
    unfolding waypointAt_confidenceThreshold s c t ..
  also have "\<dots> = Finite (7205759403792795 / 2 ^ 53)"
    unfolding lerp_Finite fl_one_minus_fifth fl_product_left fl_product_right fl_sum_of_products ..
  finally show ?thesis
    unfolding wp using c by simp
qed

section \<open>\<open>optimizePath\<close> and the transition probability\<close>

lemma scanCandidates_never_accepts:
  "fst (scanCandidates opts w wps arch current is st) = current + 1"
  by (induction "is" arbitrary: st) (simp_all add: promise_isValid_def Let_def)

lemma optimizeLoop_copies:
  "current < length wps \<Longrightarrow>
   fst (optimizeLoop opts w wps arch current optimized st) = optimized @ drop (Suc current) wps"
proof (induction opts w wps arch current optimized st rule: optimizeLoop.induct)
  case (1 opts w wps arch current optimized st)
  show ?case
  proof (cases "current < length wps - 1")
    case True
    let ?r = "scanCandidates opts w wps arch current (rev [current + 2..<length wps]) st"
    have f: "fst ?r = current + 1" by (rule scanCandidates_never_accepts)
    have lt: "fst ?r < length wps" using True f by simp
    from "1.IH" [OF True refl refl lt]
    have "fst (optimizeLoop opts w wps arch (fst ?r) (optimized @ [wps ! fst ?r]) (snd ?r)) =
          (optimized @ [wps ! fst ?r]) @ drop (Suc (fst ?r)) wps" .
    then have "fst (optimizeLoop opts w wps arch current optimized st) =
          (optimized @ [wps ! fst ?r]) @ drop (Suc (fst ?r)) wps"
      using True by (subst optimizeLoop.simps) (simp add: Let_def)
    also have "\<dots> = optimized @ drop (Suc current) wps"
      using lt f by (simp add: Cons_nth_drop_Suc)
    finally show ?thesis .
  next
    case False
    with "1.prems" have "drop (Suc current) wps = []" by simp
    with False show ?thesis
      by (subst optimizeLoop.simps) simp
  qed
qed

lemma optimizePath_identity:
  "fst (optimizePath opts w wps arch st) = wps"
proof (cases "length wps \<le> 2")
  case True
  then show ?thesis by (simp add: optimizePath_def)
next
  case False
  then have pos: "0 < length wps" by (cases wps) simp_all
  have "wps ! 0 # drop (Suc 0) wps = wps"
    using Cons_nth_drop_Suc [OF pos] by simp
  with optimizeLoop_copies [OF pos, of opts w arch "[wps ! 0]" st] False
  show ?thesis
    by (simp add: optimizePath_def)
qed

text \<open>
  C5. \<open>optimizePath\<close> reads \<open>isValid\<close> and \<open>cost\<close> from the promise that
  \<open>plan\<close> returns, not from its result, so no candidate is ever accepted and the
  waypoints are returned as they were given (\<open>optimizePath_identity\<close>). Here the plan
  from the first to the third of three waypoints is valid with cost 30, below the limit
  of 500, and the second waypoint is still in the output.
\<close>

theorem optimizePath_keeps_skippable_waypoint:
  "isValid (await (fst (plan oneStepPlanner worldHalf (threeWaypoints ! 0) (threeWaypoints ! 2) archFree noCalls))) \<and>
   cost (await (fst (plan oneStepPlanner worldHalf (threeWaypoints ! 0) (threeWaypoints ! 2) archFree noCalls))) = Finite 30 \<and>
   maxTransitionCost oneStepPlanner = Finite 500 \<and>
   fst (optimizePath oneStepPlanner worldHalf threeWaypoints archFree noCalls) = threeWaypoints \<and>
   length threeWaypoints = 3"
proof -
  have s: "interpolationSteps oneStepPlanner = 1" "collisionCheckEnabled oneStepPlanner"
    "maxTransitionCost oneStepPlanner = Finite 500"
    by (simp_all add: oneStepPlanner_def newLocalPlanner_def)
  let ?A = "threeWaypoints ! 0" and ?C = "threeWaypoints ! 2"
  let ?wp0 = "fst (waypointAt oneStepPlanner worldHalf ?A ?C 0 noCalls)"
  let ?wp1 = "fst (waypointAt oneStepPlanner worldHalf ?A ?C (Suc 0) (snd (waypointAt oneStepPlanner worldHalf ?A ?C 0 noCalls)))"
  have wps: "fst (interpolate oneStepPlanner worldHalf ?A ?C noCalls) = [?wp0, ?wp1]"
    by (rule one_step_waypoints [OF s(1)])
  have l0: "layerSequence ?wp0 = [''Input'', ''Output'']"
    by (subst one_step_first [OF s(1)]) (simp add: threeWaypoints_def configIO_def)
  have l1: "layerSequence ?wp1 = [''Input'', ''Output'']"
    by (subst one_step_last [OF s(1)]) (simp add: threeWaypoints_def configIO_def)
  have v0: "isValidConfig ?wp0 archFree" by (simp add: valid_free l0)
  have tc: "computeTransitionCost ?wp0 ?wp1 archFree = Finite 30"
    by (rule one_step_cost [OF s(1), of _ _ "fl (8/10)"])
       (simp_all add: threeWaypoints_def configIO_def lit_def)
  have loop: "plan_loop oneStepPlanner archFree [?wp0, ?wp1] plan_initial =
      plan_initial\<lparr> st_totalCost := Finite 30,
        st_cumulativeProbability := jmul (Finite 1) (computeTransitionProbability ?wp0 ?wp1 archFree) \<rparr>"
    using v0 by (simp add: tc s jgt_def plan_initial_def del: jmul.simps)
  have g1: "isValid (await (fst (plan oneStepPlanner worldHalf ?A ?C archFree noCalls)))"
    unfolding plan_isValid wps loop by (simp add: plan_initial_def)
  have g2: "cost (await (fst (plan oneStepPlanner worldHalf ?A ?C archFree noCalls))) = Finite 30"
    unfolding plan_cost wps loop by simp
  have g4: "fst (optimizePath oneStepPlanner worldHalf threeWaypoints archFree noCalls) = threeWaypoints"
    by (rule optimizePath_identity)
  have g5: "length threeWaypoints = 3" by (simp add: threeWaypoints_def)
  from g1 g2 s(3) g4 g5 show ?thesis by blast
qed

lemma clamp_in_unit_interval:
  "x \<noteq> NaN \<Longrightarrow> in_unit_interval (jmin (Finite 1) (jmax (Finite 0) x))"
  by (cases x) (simp_all add: in_unit_interval_def jmin_def jmax_def)

lemma transition_probability_range:
  "computeTransitionProbability wp1 wp2 arch = NaN \<or>
   in_unit_interval (computeTransitionProbability wp1 wp2 arch)"
  unfolding computeTransitionProbability_def Let_def
  by (metis clamp_in_unit_interval jmax_def jmin_def)

lemma empty_pair_probability:
  "layerSequence wp1 = [] \<Longrightarrow> layerSequence wp2 = [] \<Longrightarrow> computeTransitionProbability wp1 wp2 arch = NaN"
  by (simp add: computeTransitionProbability_def configDistance_def Let_def lengthDiff_def inf_of_sign_def
      layerCompatibility_def jmax_def jmin_def)

text \<open>
  C6. Between two waypoints with empty layer sequences the configuration distance and
  the Jaccard similarity are both \<open>0 / 0\<close>, and \<open>Math.min(1, Math.max(0, NaN))\<close>
  is NaN: the transition probability is NaN, and so is the probability that \<open>plan\<close>
  returns when collision checking is off. Every transition probability that is not NaN is
  in the unit interval (\<open>transition_probability_range\<close>).
\<close>

theorem empty_sequences_give_NaN_probability:
  "computeTransitionProbability configEmpty configEmpty archFree = NaN \<and>
   probability (await (fst (plan uncheckedPlanner worldHalf configEmpty configEmpty archFree noCalls))) = NaN \<and>
   \<not> in_unit_interval NaN"
proof -
  have s: "interpolationSteps uncheckedPlanner = 1" "\<not> collisionCheckEnabled uncheckedPlanner"
    "maxTransitionCost uncheckedPlanner = Finite 500"
    by (simp_all add: uncheckedPlanner_def newLocalPlanner_def)
  let ?wp0 = "fst (waypointAt uncheckedPlanner worldHalf configEmpty configEmpty 0 noCalls)"
  let ?wp1 = "fst (waypointAt uncheckedPlanner worldHalf configEmpty configEmpty (Suc 0)
                 (snd (waypointAt uncheckedPlanner worldHalf configEmpty configEmpty 0 noCalls)))"
  have wps: "fst (interpolate uncheckedPlanner worldHalf configEmpty configEmpty noCalls) = [?wp0, ?wp1]"
    by (rule one_step_waypoints [OF s(1)])
  have l0: "layerSequence ?wp0 = []"
    by (subst one_step_first [OF s(1)]) (simp add: configEmpty_def)
  have l1: "layerSequence ?wp1 = []"
    by (subst one_step_last [OF s(1)]) (simp add: configEmpty_def)
  have tc: "computeTransitionCost ?wp0 ?wp1 archFree = Finite 30"
    by (rule one_step_cost [OF s(1), of _ _ "fl (8/10)"])
       (simp_all add: configEmpty_def configIO_def lit_def)
  have tp: "computeTransitionProbability ?wp0 ?wp1 archFree = NaN"
    by (rule empty_pair_probability [OF l0 l1])
  have loop: "st_cumulativeProbability (plan_loop uncheckedPlanner archFree [?wp0, ?wp1] plan_initial) = NaN"
    by (simp add: tc tp s jgt_def plan_initial_def)
  have g1: "computeTransitionProbability configEmpty configEmpty archFree = NaN"
    by (rule empty_pair_probability) (simp_all add: configEmpty_def)
  have g2: "probability (await (fst (plan uncheckedPlanner worldHalf configEmpty configEmpty archFree noCalls))) = NaN"
    unfolding plan_probability wps by (rule loop)
  have g3: "\<not> in_unit_interval NaN" by (simp add: in_unit_interval_def)
  from g1 g2 g3 show ?thesis by blast
qed

section \<open>Ranking\<close>


lemma isFiniteGrid_fl [simp]: "isFiniteGrid (Finite (fl x))"
  by (simp add: isFiniteGrid_def fl_onGrid)

lemma isFiniteGrid_lit [simp]: "isFiniteGrid (lit x)"
  by (simp add: lit_def)
















lemma rankOne_fields:
  "r_path (rankOne w paths p) = path p"
  "rank_no (rankOne w paths p) = 0"
  "r_normalized (rankOne w paths p) = normalizeMetrics (metrics p) paths"
  "compositeScore (rankOne w paths p) = calculateCompositeScore (normalizeMetrics (metrics p) paths) w"
  by (simp_all add: rankOne_def Let_def)




lemma set_insertSorted: "set (insertSorted cmp x ys) = insert x (set ys)"
  by (induction ys) auto

lemma mset_insertSorted: "mset (insertSorted cmp x ys) = add_mset x (mset ys)"
  by (induction ys) auto

lemma mset_array_sort: "mset (array_sort cmp xs) = mset xs"
  by (induction xs) (simp_all add: array_sort_def mset_insertSorted)

lemma set_array_sort: "set (array_sort cmp xs) = set xs"
  using mset_array_sort [of cmp xs] by (metis set_mset_mset)

lemma length_array_sort: "length (array_sort cmp xs) = length xs"
  using mset_array_sort [of cmp xs] by (metis size_mset)

lemma assignRanks_length: "length (assignRanks xs) = length xs"
  by (simp add: assignRanks_def)

lemma assignRanks_nth:
  "i < length xs \<Longrightarrow> assignRanks xs ! i = (xs ! i)\<lparr> rank_no := i + 1 \<rparr>"
  by (simp add: assignRanks_def nth_enumerate_eq)




lemma assignRanks_paths: "map r_path (assignRanks xs) = map r_path xs"
  by (rule nth_equalityI) (simp_all add: assignRanks_length assignRanks_nth)

lemma assignRanks_normalized: "map r_normalized (assignRanks xs) = map r_normalized xs"
  by (rule nth_equalityI) (simp_all add: assignRanks_length assignRanks_nth)





lemma rank_unfold:
  "rank opts paths given =
     assignRanks (array_sort byScoreDescending
       (map (rankOne (case given of None \<Rightarrow> weights opts | Some w \<Rightarrow> w) paths) paths))"
  by (simp add: rank_def Let_def)











lemma rank_normalized:
  assumes "r \<in> set (rank opts paths given)"
  shows "\<exists>p\<in>set paths. r_normalized r = normalizeMetrics (metrics p) paths"
proof -
  let ?w = "case given of None \<Rightarrow> weights opts | Some w \<Rightarrow> w"
  have "r_normalized r \<in> set (map r_normalized (rank opts paths given))"
    using assms by simp
  also have "map r_normalized (rank opts paths given) =
             map r_normalized (array_sort byScoreDescending (map (rankOne ?w paths) paths))"
    by (simp add: rank_unfold assignRanks_normalized)
  also have "set \<dots> = r_normalized ` set (map (rankOne ?w paths) paths)"
    by (simp add: set_array_sort)
  finally show ?thesis
    by (auto simp: rankOne_fields)
qed

lemma foldl_jmin_const:
  "list_all (\<lambda>x. x = Finite c) xs \<Longrightarrow> foldl jmin (Finite c) xs = Finite c"
  by (induction xs) (simp_all add: jmin_def)

lemma foldl_jmax_const:
  "list_all (\<lambda>x. x = Finite c) xs \<Longrightarrow> foldl jmax (Finite c) xs = Finite c"
  by (induction xs) (simp_all add: jmax_def)

lemma math_min_const:
  "xs \<noteq> [] \<Longrightarrow> list_all (\<lambda>x. x = Finite c) xs \<Longrightarrow> math_min xs = Finite c"
  by (cases xs) (simp_all add: math_min_def foldl_jmin_const jmin_def)

lemma math_max_const:
  "xs \<noteq> [] \<Longrightarrow> list_all (\<lambda>x. x = Finite c) xs \<Longrightarrow> math_max xs = Finite c"
  by (cases xs) (simp_all add: math_max_def foldl_jmax_const jmax_def)

lemma equal_cost_normalized:
  assumes ne: "paths \<noteq> []"
    and eq: "list_all (\<lambda>p. totalCost (metrics p) = Some c) paths"
    and nz: "fl c \<noteq> 0"
  shows "n_cost (normalizeMetrics m paths) = Finite (1/2)"
proof -
  have all: "\<And>d. list_all (\<lambda>x. x = Finite (fl c)) (map (\<lambda>m. metric_or (totalCost m) d) (map metrics paths))"
    using eq nz by (simp add: list_all_iff metric_or_def lit_def)
  have nel: "\<And>d. map (\<lambda>m. metric_or (totalCost m) d) (map metrics paths) \<noteq> []"
    using ne by simp
  have mn: "math_min (map (\<lambda>m. metric_or (totalCost m) 0) (map metrics paths)) = Finite (fl c)"
    by (rule math_min_const [OF nel all])
  have mx: "math_max (map (\<lambda>m. metric_or (totalCost m) 1000) (map metrics paths)) = Finite (fl c)"
    by (rule math_max_const [OF nel all])
  show ?thesis
    unfolding normalizeMetrics_def Let_def mn mx
    by (simp add: normalizeValue_def jeq_def jsub_def)
qed

text \<open>
  The zero-spread rule on the cost metric where the code reaches it: when every path has
  the same total cost and that cost is not zero (as the double it is read as), the minimum and the maximum are equal and
  every ranked path has the normalized cost 0.5.
\<close>

theorem equal_nonzero_cost_normalizes_to_half:
  assumes "list_all (\<lambda>p. totalCost (metrics p) = Some c) paths" and "fl c \<noteq> 0"
  shows "list_all (\<lambda>r. n_cost (r_normalized r) = Finite (1/2)) (rank opts paths given)"
proof -
  have "n_cost (r_normalized r) = Finite (1/2)" if r: "r \<in> set (rank opts paths given)" for r
  proof -
    from rank_normalized [OF r] obtain p where p: "p \<in> set paths"
      and n: "r_normalized r = normalizeMetrics (metrics p) paths" by blast
    from p have "paths \<noteq> []" by auto
    from equal_cost_normalized [OF this assms] n show ?thesis by simp
  qed
  then show ?thesis by (simp add: list_all_iff)
qed

theorem equal_nonzero_cost_normalizes_to_half_witness:
  "list_all (\<lambda>r. n_cost (r_normalized r) = Finite (1/2)) (rank defaultRanker equalCostPaths None) \<and>
   length (rank defaultRanker equalCostPaths None) = 2"
proof -
  have a: "list_all (\<lambda>p. totalCost (metrics p) = Some 120) equalCostPaths"
    by (simp add: equalCostPaths_def)
  have b: "fl 120 \<noteq> 0"
    using fl_int [of 120] by simp
  have c: "length (rank defaultRanker equalCostPaths None) = 2"
    by (simp add: rank_unfold assignRanks_length length_array_sort equalCostPaths_def)
  from equal_nonzero_cost_normalizes_to_half [OF a b, of defaultRanker None] c
  show ?thesis by simp
qed

text \<open>
  C4. Two paths of total cost 0 have the same raw total cost, so by the zero-spread rule
  of \<open>_normalize\<close> their normalized cost should be 0.5. The code takes the minimum
  over \<open>totalCost || 0\<close> and the maximum over \<open>totalCost || 1000\<close>: a cost of 0
  is falsy, the maximum is 1000, the rule \<open>max === min\<close> is not reached, and the
  first ranked path has the normalized cost 1.
\<close>

theorem zero_cost_misses_zero_spread_rule:
  "map (\<lambda>p. totalCost (metrics p)) zeroCostPaths = [Some 0, Some 0] \<and>
   n_cost (r_normalized (rank defaultRanker zeroCostPaths None ! 0)) = Finite 1"
proof -
  have len: "length (rank defaultRanker zeroCostPaths None) = 2"
    by (simp add: rank_unfold assignRanks_length length_array_sort zeroCostPaths_def)
  then have "rank defaultRanker zeroCostPaths None ! 0 \<in> set (rank defaultRanker zeroCostPaths None)"
    by (intro nth_mem) simp
  from rank_normalized [OF this] obtain p where p: "p \<in> set zeroCostPaths"
    and n: "r_normalized (rank defaultRanker zeroCostPaths None ! 0) =
            normalizeMetrics (metrics p) zeroCostPaths" by blast
  have "n_cost (normalizeMetrics (metrics p) zeroCostPaths) = Finite 1"
    using p
    by (auto simp: zeroCostPaths_def normalizeMetrics_def Let_def math_min_def math_max_def
        metric_or_def lit_def jmin_def jmax_def normalizeValue_def jeq_def jsub_def)
  with n show ?thesis by (simp add: zeroCostPaths_def)
qed


lemma find_distinct:
  "distinct (map r_path xs) \<Longrightarrow> b \<in> set xs \<Longrightarrow> find (\<lambda>v. r_path v = r_path b) xs = Some b"
  by (induction xs) (auto simp: image_iff)

lemma rankChangesOf_same:
  "distinct (map r_path varied) \<Longrightarrow> set bs \<subseteq> set varied \<Longrightarrow>
   rankChangesOf bs varied = Inr (map unchanged bs)"
  by (induction bs) (simp_all add: find_distinct unchanged_def)

lemma rankChangesOf_total:
  "r_path ` set bs \<subseteq> r_path ` set varied \<Longrightarrow> \<exists>cs. rankChangesOf bs varied = Inr cs"
proof (induction bs)
  case Nil
  then show ?case by simp
next
  case (Cons b bs)
  then obtain cs where cs: "rankChangesOf bs varied = Inr cs" by auto
  from Cons.prems have "\<exists>v\<in>set varied. r_path v = r_path b" by (auto simp: image_iff)
  then obtain v where "find (\<lambda>v. r_path v = r_path b) varied = Some v"
    by (cases "find (\<lambda>v. r_path v = r_path b) varied") (auto simp: find_None_iff)
  with cs show ?case by simp
qed

lemma rank_paths_mset:
  "mset (map r_path (rank opts paths given)) = mset (map path paths)"
proof -
  let ?w = "case given of None \<Rightarrow> weights opts | Some w \<Rightarrow> w"
  let ?ranked = "map (rankOne ?w paths) paths"
  have "mset (map r_path (rank opts paths given)) =
        mset (map r_path (array_sort byScoreDescending ?ranked))"
    by (simp add: rank_unfold assignRanks_paths)
  also have "\<dots> = image_mset r_path (mset (array_sort byScoreDescending ?ranked))"
    by (rule mset_map)
  also have "\<dots> = image_mset r_path (mset ?ranked)" by (simp only: mset_array_sort)
  also have "\<dots> = mset (map path paths)" by (simp add: rankOne_fields multiset.map_comp o_def)
  finally show ?thesis .
qed

lemma rank_paths_set:
  "r_path ` set (rank opts paths given) = path ` set paths"
  using rank_paths_mset [of opts paths given] by (metis set_map set_mset_mset)

lemma rank_paths_distinct:
  "distinct (map path paths) \<Longrightarrow> distinct (map r_path (rank opts paths given))"
  using rank_paths_mset [of opts paths given] by (metis mset_eq_imp_distinct_iff)

lemma rank_Some_default: "rank opts paths (Some (weights opts)) = rank opts paths None"
  by (simp add: rank_def)

lemma analyse_total:
  "\<exists>a. analyse opts paths (rank opts paths g) w = Inr a"
proof -
  have "r_path ` set (rank opts paths g) \<subseteq> r_path ` set (rank opts paths (Some w))"
    by (simp add: rank_paths_set)
  from rankChangesOf_total [OF this] show ?thesis
    by (auto simp: analyse_def Let_def)
qed

lemma analyseAll_total:
  "\<exists>as. analyseAll opts paths (rank opts paths g) ws = Inr as \<and> length as = length ws"
proof (induction ws)
  case Nil
  then show ?case by simp
next
  case (Cons w ws)
  from analyse_total [of opts paths g w] obtain a where "analyse opts paths (rank opts paths g) w = Inr a"
    by blast
  with Cons show ?case by auto
qed

lemma math_max_zero_changes:
  "bs \<noteq> [] \<Longrightarrow> math_max (map ((\<lambda>c. Finite \<bar>real_of_int (change c)\<bar>) \<circ> unchanged) bs) = Finite 0"
  by (intro math_max_const) (simp_all add: list_all_iff unchanged_def)

lemma analyse_same:
  assumes "paths \<noteq> []" and "distinct (map path paths)"
  shows "\<exists>a. analyse opts paths (rank opts paths None) (weights opts) = Inr a \<and> maxChange a = Finite 0"
proof -
  let ?base = "rank opts paths None"
  have d: "distinct (map r_path ?base)" by (rule rank_paths_distinct [OF assms(2)])
  have rc: "rankChangesOf ?base ?base = Inr (map unchanged ?base)"
    by (rule rankChangesOf_same [OF d]) simp
  have "length ?base = length paths"
    by (simp add: rank_unfold assignRanks_length length_array_sort)
  with assms(1) have ne: "?base \<noteq> []" by auto
  show ?thesis
    by (simp add: analyse_def Let_def rank_Some_default rc math_max_zero_changes [OF ne])
qed

lemma analyseAll_same:
  assumes "paths \<noteq> []" and "distinct (map path paths)"
    and "list_all (\<lambda>w. w = weights opts) ws"
  shows "\<exists>as. analyseAll opts paths (rank opts paths None) ws = Inr as \<and>
         list_all (\<lambda>a. maxChange a = Finite 0) as"
  using assms(3)
proof (induction ws)
  case Nil
  then show ?case by simp
next
  case (Cons w ws)
  then have w: "w = weights opts" by simp
  from analyse_same [OF assms(1,2), of opts] obtain a
    where "analyse opts paths (rank opts paths None) (weights opts) = Inr a" "maxChange a = Finite 0"
    by blast
  with Cons w show ?case by auto
qed

lemma foldl_jadd_zero:
  "list_all (\<lambda>x. x = Finite 0) xs \<Longrightarrow> foldl jadd (Finite 0) xs = Finite 0"
  by (induction xs) simp_all

lemma calculateStability_unchanged:
  assumes "as \<noteq> []" and "list_all (\<lambda>a. maxChange a = Finite 0) as"
  shows "calculateStability as = Finite 1"
proof -
  have "list_all (\<lambda>x. x = Finite 0) (map maxChange as)"
    using assms(2) by (simp add: list_all_iff)
  then have "foldl jadd (Finite 0) (map maxChange as) = Finite 0"
    by (rule foldl_jadd_zero)
  then show ?thesis
    using assms(1) by (simp add: calculateStability_def Let_def jsub_def jmax_def)
qed

text \<open>
  C8. \<open>sensitivityAnalysis\<close> returns (it never fails to find a path), with one
  analysis for each weight variation. For a non-empty list of variations the stability is
  \<open>max(0, 1 - average(maxChange) / 10)\<close>. For a non-empty set of paths that are
  pairwise distinct objects and a non-empty list of variations that all equal the
  ranker's own weights, every \<open>maxChange\<close> is 0 and the stability is 1.
\<close>

theorem sensitivity_stability:
  "\<exists>s. sensitivityAnalysis opts paths weightVariations = Inr s \<and>
       length (analyses s) = length weightVariations \<and>
       (weightVariations \<noteq> [] \<longrightarrow>
          stability s =
            jmax (Finite 0)
              (jsub (Finite 1)
                (jdiv (jdiv (foldl jadd (Finite 0) (map maxChange (analyses s)))
                            (Finite (real (length (analyses s)))))
                      (Finite 10)))) \<and>
       (paths \<noteq> [] \<and> distinct (map path paths) \<and> weightVariations \<noteq> [] \<and>
        list_all (\<lambda>w. w = weights opts) weightVariations \<longrightarrow>
          stability s = Finite 1 \<and> list_all (\<lambda>a. maxChange a = Finite 0) (analyses s))"
proof -
  from analyseAll_total [of opts paths None weightVariations]
  obtain as where as: "analyseAll opts paths (rank opts paths None) weightVariations = Inr as"
    and len: "length as = length weightVariations" by blast
  let ?s = "\<lparr> baseRanking = rank opts paths None, analyses = as, stability = calculateStability as \<rparr>"
  have s: "sensitivityAnalysis opts paths weightVariations = Inr ?s"
    by (simp add: sensitivityAnalysis_def Let_def as)
  have g2: "weightVariations \<noteq> [] \<longrightarrow>
          stability ?s =
            jmax (Finite 0)
              (jsub (Finite 1)
                (jdiv (jdiv (foldl jadd (Finite 0) (map maxChange (analyses ?s)))
                            (Finite (real (length (analyses ?s)))))
                      (Finite 10)))"
    using len by (auto simp: calculateStability_def Let_def)
  have g3: "paths \<noteq> [] \<and> distinct (map path paths) \<and> weightVariations \<noteq> [] \<and>
        list_all (\<lambda>w. w = weights opts) weightVariations \<longrightarrow>
          stability ?s = Finite 1 \<and> list_all (\<lambda>a. maxChange a = Finite 0) (analyses ?s)"
  proof
    assume h: "paths \<noteq> [] \<and> distinct (map path paths) \<and> weightVariations \<noteq> [] \<and>
        list_all (\<lambda>w. w = weights opts) weightVariations"
    then have "\<exists>as'. analyseAll opts paths (rank opts paths None) weightVariations = Inr as' \<and>
         list_all (\<lambda>a. maxChange a = Finite 0) as'"
      by (intro analyseAll_same) simp_all
    with as have z: "list_all (\<lambda>a. maxChange a = Finite 0) as" by auto
    from h len have "as \<noteq> []" by auto
    from calculateStability_unchanged [OF this z] z
    show "stability ?s = Finite 1 \<and> list_all (\<lambda>a. maxChange a = Finite 0) (analyses ?s)"
      by simp
  qed
  have g1: "length (analyses ?s) = length weightVariations" using len by simp
  show ?thesis
    by (rule exI [of _ ?s]) (intro conjI s g1 g2 g3)
qed

theorem sensitivity_stability_witness:
  "\<exists>s. sensitivityAnalysis defaultRanker equalCostPaths [default_weights, default_weights] = Inr s \<and>
       length (analyses s) = 2 \<and> stability s = Finite 1"
proof -
  have h: "equalCostPaths \<noteq> [] \<and> distinct (map path equalCostPaths) \<and>
        [default_weights, default_weights] \<noteq> [] \<and>
        list_all (\<lambda>w. w = weights defaultRanker) [default_weights, default_weights]"
    by (simp add: equalCostPaths_def defaultRanker_def newPathRanker_def)
  from sensitivity_stability [of defaultRanker equalCostPaths "[default_weights, default_weights]"] h
  show ?thesis by auto
qed

end
